theory Spec2Isabelle
  imports Main "HOL-Library.Sublist"
begin

section \<open>The image catalog\<close>

text \<open>
  \<^verbatim>\<open>scripts/import_test_images.py\<close> holds one dictionary, \<^verbatim>\<open>IMAGES\<close>, from a city name
  to a list of ten URLs. A Python dictionary iterates in insertion order, and the script
  walks it with \<^verbatim>\<open>IMAGES.items()\<close>, so the model is an association list in the order of
  the literal.
\<close>

definition IMAGES :: "(string \<times> string list) list" where
  "IMAGES =
    [(''copenhagen'',
       [''https://images.unsplash.com/photo-1513622470522-26c3c8a854bc?w=800'',
        ''https://images.unsplash.com/photo-1564507592333-c60657eea523?w=800'',
        ''https://images.unsplash.com/photo-1549573925-9975a04a9a2d?w=800'',
        ''https://images.unsplash.com/photo-1557093793-e196ae071479?w=800'',
        ''https://images.unsplash.com/photo-1588698301085-57f4c7c4a8cb?w=800'',
        ''https://images.unsplash.com/photo-1599946347371-68eb71b16afc?w=800'',
        ''https://images.unsplash.com/photo-1589992602626-fa7c8f1f8f01?w=800'',
        ''https://images.unsplash.com/photo-1526391751351-0a4df8d8e511?w=800'',
        ''https://images.unsplash.com/photo-1602491453631-e2a5ad90a131?w=800'',
        ''https://images.unsplash.com/photo-1554939437-ecc492c67b78?w=800'']),
     (''paris'',
       [''https://images.unsplash.com/photo-1502602898657-3e91760cbb34?w=800'',
        ''https://images.unsplash.com/photo-1499856871958-5b9627545d1a?w=800'',
        ''https://images.unsplash.com/photo-1511739001486-6bfe10ce785f?w=800'',
        ''https://images.unsplash.com/photo-1431274172761-fca41d930114?w=800'',
        ''https://images.unsplash.com/photo-1509439581779-6298f75bf6e5?w=800'',
        ''https://images.unsplash.com/photo-1522093007474-d86e9bf7ba6f?w=800'',
        ''https://images.unsplash.com/photo-1550340499-a6c60fc8287c?w=800'',
        ''https://images.unsplash.com/photo-1549144511-f099e773c147?w=800'',
        ''https://images.unsplash.com/photo-1505576391880-b3f9d713dc4f?w=800'',
        ''https://images.unsplash.com/photo-1500039436846-25ae2f11882e?w=800'']),
     (''berlin'',
       [''https://images.unsplash.com/photo-1560969184-10fe8719e047?w=800'',
        ''https://images.unsplash.com/photo-1587330979470-3595ac045ab7?w=800'',
        ''https://images.unsplash.com/photo-1599946347371-68eb71b16afc?w=800'',
        ''https://images.unsplash.com/photo-1528728329032-2972f65dfb3f?w=800'',
        ''https://images.unsplash.com/photo-1566404791232-af9fe0ae8f8b?w=800'',
        ''https://images.unsplash.com/photo-1546726747-421c6d69c929?w=800'',
        ''https://images.unsplash.com/photo-1599098939570-fb3a1c88e999?w=800'',
        ''https://images.unsplash.com/photo-1587330979470-3595ac045ab7?w=800'',
        ''https://images.unsplash.com/photo-1560969184-10fe8719e047?w=800'',
        ''https://images.unsplash.com/photo-1528728329032-2972f65dfb3f?w=800''])]"

text \<open>\<^verbatim>\<open>IMAGES[city]\<close>: the list stored under a key, \<^verbatim>\<open>KeyError\<close> as \<open>None\<close>.\<close>

definition urls_of :: "string \<Rightarrow> string list option" where
  "urls_of city = map_of IMAGES city"

section \<open>Strings of the Python runtime\<close>

text \<open>
  A Python \<^verbatim>\<open>str\<close> is modelled by its UTF-8 bytes. Every character the script tests for
  (the newline, the parentheses, \<^verbatim>\<open>A-F\<close>, \<^verbatim>\<open>0-9\<close>, \<^verbatim>\<open>-\<close>, the letters of \<^verbatim>\<open>Booted\<close>) is
  ASCII, and no byte of a multi-byte UTF-8 sequence is ASCII, so the tests give the same
  answers on bytes as on code points.
\<close>

text \<open>\<^verbatim>\<open>str(i)\<close> for a non-negative integer: its decimal digits.\<close>

definition digit_char :: "nat \<Rightarrow> char" where
  "digit_char d = char_of (48 + d)"

function str_nat :: "nat \<Rightarrow> string" where
  "str_nat n = (if n < 10 then [digit_char n] else str_nat (n div 10) @ [digit_char (n mod 10)])"
  by pat_completeness auto
termination
  by (relation "measure id") auto

declare str_nat.simps [simp del]

text \<open>
  \<^verbatim>\<open>s.split('\n')\<close>: the pieces between newlines; the empty string gives one empty piece,
  and a trailing newline gives a last empty piece. The result is never the empty list,
  so the last branch of the \<^theory_text>\<open>case\<close> is never taken.
\<close>

fun split_nl :: "string \<Rightarrow> string list" where
  "split_nl [] = [[]]"
| "split_nl (c # cs) =
     (if c = CHR 0x0A then [] # split_nl cs
      else (case split_nl cs of
              piece # pieces \<Rightarrow> (c # piece) # pieces
            | [] \<Rightarrow> [[c]]))"

text \<open>\<^verbatim>\<open>needle in hay\<close> on strings: \<^verbatim>\<open>needle\<close> occurs as a contiguous piece of \<^verbatim>\<open>hay\<close>.\<close>

fun str_in :: "string \<Rightarrow> string \<Rightarrow> bool" where
  "str_in needle [] = (needle = [])"
| "str_in needle (c # cs) = (prefix needle (c # cs) \<or> str_in needle cs)"

text \<open>
  \<^verbatim>\<open>s.title()\<close>: a cased character is upper-cased when the character before it is not
  cased and lower-cased otherwise. The model knows the ASCII letters and leaves every
  other byte as it is; the catalog's keys are ASCII.
\<close>

definition is_upper :: "char \<Rightarrow> bool" where
  "is_upper c = (65 \<le> (of_char c :: nat) \<and> (of_char c :: nat) \<le> 90)"

definition is_lower :: "char \<Rightarrow> bool" where
  "is_lower c = (97 \<le> (of_char c :: nat) \<and> (of_char c :: nat) \<le> 122)"

definition to_upper :: "char \<Rightarrow> char" where
  "to_upper c = (if is_lower c then char_of ((of_char c :: nat) - 32) else c)"

definition to_lower :: "char \<Rightarrow> char" where
  "to_lower c = (if is_upper c then char_of ((of_char c :: nat) + 32) else c)"

fun title_from :: "bool \<Rightarrow> string \<Rightarrow> string" where
  "title_from prev [] = []"
| "title_from prev (c # cs) =
     (if is_upper c \<or> is_lower c
      then (if prev then to_lower c else to_upper c) # title_from True cs
      else c # title_from False cs)"

definition title :: "string \<Rightarrow> string" where
  "title s = title_from False s"

section \<open>The regular expression of the Device Locator\<close>

text \<open>
  \<^verbatim>\<open>re.search(r'\(([A-F0-9-]+)\)', line)\<close> looks for the leftmost position where the
  pattern matches: an opening parenthesis, one or more characters of the class
  \<^verbatim>\<open>[A-F0-9-]\<close>, a closing parenthesis. Neither parenthesis is in the class, so at a
  given opening parenthesis the greedy \<^verbatim>\<open>+\<close> takes the whole run of class characters
  and the match succeeds exactly when that run is not empty and a closing parenthesis
  follows it; a shorter run would be followed by a class character, never by \<^verbatim>\<open>)\<close>.
  \<open>re_search\<close> returns \<^verbatim>\<open>match.group(1)\<close>, and \<open>None\<close> where Python gives \<^verbatim>\<open>None\<close>.
\<close>

definition uuid_char :: "char \<Rightarrow> bool" where
  "uuid_char c =
     ((65 \<le> (of_char c :: nat) \<and> (of_char c :: nat) \<le> 70)
      \<or> (48 \<le> (of_char c :: nat) \<and> (of_char c :: nat) \<le> 57)
      \<or> c = CHR ''-'')"

definition match_here :: "string \<Rightarrow> string option" where
  "match_here cs =
     (let tok = takeWhile uuid_char cs; rest = dropWhile uuid_char cs
      in if tok \<noteq> [] \<and> rest \<noteq> [] \<and> hd rest = CHR '')'' then Some tok else None)"

fun re_search :: "string \<Rightarrow> string option" where
  "re_search [] = None"
| "re_search (c # cs) =
     (if c = CHR ''(''
      then (case match_here cs of Some tok \<Rightarrow> Some tok | None \<Rightarrow> re_search cs)
      else re_search cs)"

text \<open>
  The body of \<^verbatim>\<open>get_simulator_id\<close>'s loop over the lines of the device list: the first
  line that contains \<^verbatim>\<open>Booted\<close> and on which the pattern matches gives the result (a
  match object is always truthy); a line with \<^verbatim>\<open>Booted\<close> and no match is passed over.
\<close>

fun scan_lines :: "string list \<Rightarrow> string option" where
  "scan_lines [] = None"
| "scan_lines (line # rest) =
     (if str_in ''Booted'' line
      then (case re_search line of Some tok \<Rightarrow> Some tok | None \<Rightarrow> scan_lines rest)
      else scan_lines rest)"

section \<open>The outside world\<close>

text \<open>
  The script talks to the operating system, the network and \<^verbatim>\<open>xcrun simctl\<close>. Each such
  call either returns or raises; what it does is not the script's choice, so it is a
  parameter of the model. A \<open>world\<close> answers every call, and its answer may depend on
  everything the script has done so far (the trace). Exceptions carry the text that
  \<^verbatim>\<open>str(e)\<close> gives. \<^verbatim>\<open>URLError\<close> stands for the transport errors of
  \<^verbatim>\<open>urllib.request.urlretrieve\<close>; all three classes are subclasses of \<^verbatim>\<open>Exception\<close>.

  The calls, in the order of the source:
  \<^item> \<open>Simctl_list_devices\<close>: \<^verbatim>\<open>subprocess.run(['xcrun', 'simctl', 'list', 'devices'], ...)\<close>
    with \<^verbatim>\<open>check=True\<close>; when it returns, its \<^verbatim>\<open>stdout\<close> is \<open>devices_stdout\<close>;
  \<^item> \<open>Urlretrieve url filepath\<close>: \<^verbatim>\<open>urllib.request.urlretrieve(url, filepath)\<close>;
  \<^item> \<open>Simctl_addmedia simulator_id filepath\<close>:
    \<^verbatim>\<open>subprocess.run(['xcrun', 'simctl', 'addmedia', simulator_id, filepath], check=True, ...)\<close>;
  \<^item> \<open>Makedirs d\<close>: \<^verbatim>\<open>os.makedirs(d, exist_ok=True)\<close>; \<open>Remove filepath\<close>:
    \<^verbatim>\<open>os.remove(filepath)\<close>; \<open>Rmdir d\<close>: \<^verbatim>\<open>os.rmdir(d)\<close>.

  \<^verbatim>\<open>print\<close> is taken to succeed, and the trace records its argument. Interrupts from
  outside the script are not modelled.
\<close>

datatype exn = CalledProcessError string | OSError string | URLError string

fun str_exn :: "exn \<Rightarrow> string" where
  "str_exn (CalledProcessError m) = m"
| "str_exn (OSError m) = m"
| "str_exn (URLError m) = m"

datatype call =
    Simctl_list_devices
  | Makedirs string
  | Urlretrieve string string
  | Simctl_addmedia string string
  | Remove string
  | Rmdir string

datatype event = Print string | Call call "exn option"

record world =
  devices_stdout :: string
  respond :: "event list \<Rightarrow> call \<Rightarrow> exn option"

text \<open>
  What leaves \<^verbatim>\<open>main\<close> other than by returning: \<^verbatim>\<open>sys.exit(n)\<close>, or an exception that
  nothing caught.
\<close>

datatype raised = SystemExit nat | Uncaught exn

definition print :: "string \<Rightarrow> event list \<Rightarrow> event list" where
  "print s tr = tr @ [Print s]"

definition syscall :: "world \<Rightarrow> call \<Rightarrow> event list \<Rightarrow> exn option \<times> event list" where
  "syscall w c tr = (respond w tr c, tr @ [Call c (respond w tr c)])"

section \<open>The script\<close>

text \<open>
  \<^verbatim>\<open>get_simulator_id\<close>: \<^verbatim>\<open>subprocess.run\<close> with \<^verbatim>\<open>check=True\<close> raises
  \<^verbatim>\<open>CalledProcessError\<close> on a non-zero exit, which the function turns into \<^verbatim>\<open>None\<close>;
  any other exception (the tool cannot be started) is not caught.
\<close>

definition get_simulator_id :: "world \<Rightarrow> event list \<Rightarrow> (exn + string option) \<times> event list" where
  "get_simulator_id w tr =
     (case syscall w Simctl_list_devices tr of
        (None, tr1) \<Rightarrow> (Inr (scan_lines (split_nl (devices_stdout w))), tr1)
      | (Some (CalledProcessError m), tr1) \<Rightarrow> (Inr None, tr1)
      | (Some e, tr1) \<Rightarrow> (Inl e, tr1))"

definition cross_mark :: string where
  "cross_mark = [CHR 0xE2, CHR 0x9D, CHR 0x8C]"

definition check_mark :: string where
  "check_mark = [CHR 0xE2, CHR 0x9C, CHR 0x85]"

definition rocket :: string where
  "rocket = [CHR 0xF0, CHR 0x9F, CHR 0x9A, CHR 0x80]"

definition folder :: string where
  "folder = [CHR 0xF0, CHR 0x9F, CHR 0x93, CHR 0x81]"

definition camera :: string where
  "camera = [CHR 0xF0, CHR 0x9F, CHR 0x93, CHR 0xB8]"

definition sparkles :: string where
  "sparkles = [CHR 0xE2, CHR 0x9C, CHR 0xA8]"

definition phone :: string where
  "phone = [CHR 0xF0, CHR 0x9F, CHR 0x93, CHR 0xB1]"

definition temp_dir :: string where
  "temp_dir = ''/tmp/wanderlog_test_images''"

text \<open>
  The arguments of the script's \<^verbatim>\<open>print\<close> calls, in the order of the source. The emoji
  are the constants above (their UTF-8 bytes); an f-string becomes a function of what it
  interpolates.
\<close>

definition download_failed_msg :: "exn \<Rightarrow> string" where
  "download_failed_msg e = ''  '' @ cross_mark @ '' Failed to download: '' @ str_exn e"

definition import_failed_msg :: "exn \<Rightarrow> string" where
  "import_failed_msg e = ''  '' @ cross_mark @ '' Failed to import: '' @ str_exn e"

definition start_msg :: string where
  "start_msg = rocket @ '' Starting to import test images to iOS Simulator...'' @ [CHR 0x0A]"

definition no_simulator_msg :: string where
  "no_simulator_msg = cross_mark @ '' No booted iOS Simulator found!''"

definition please_start_msg :: string where
  "please_start_msg = ''Please start the iOS Simulator first, then run this script again.''"

definition found_msg :: "string \<Rightarrow> string" where
  "found_msg simulator_id = check_mark @ '' Found simulator: '' @ simulator_id @ [CHR 0x0A]"

definition created_msg :: string where
  "created_msg = folder @ '' Created temp directory: '' @ temp_dir @ [CHR 0x0A]"

definition processing_msg :: "string \<Rightarrow> string" where
  "processing_msg city = camera @ '' Processing '' @ title city @ '' images...''"

definition downloading_msg :: "string \<Rightarrow> nat \<Rightarrow> string" where
  "downloading_msg city i =
     ''  ['' @ str_nat i @ ''/10] Downloading '' @ title city @ '' image...''"

definition downloaded_msg :: string where
  "downloaded_msg = ''  '' @ check_mark @ '' Downloaded''"

definition imported_msg :: string where
  "imported_msg = ''  '' @ check_mark @ '' Imported to simulator''"

definition done_msg :: "nat \<Rightarrow> string" where
  "done_msg total_imported =
     [CHR 0x0A] @ sparkles @ '' Done! Imported '' @ str_nat total_imported
       @ ''/30 images to iOS Simulator.''"

definition open_photos_msg :: string where
  "open_photos_msg =
     phone @ '' Open the Photos app in your simulator to see them.'' @ [CHR 0x0A]"

text \<open>\<^verbatim>\<open>download_image\<close>: \<^verbatim>\<open>except Exception\<close> catches every exception of the model.\<close>

definition download_image :: "world \<Rightarrow> string \<Rightarrow> string \<Rightarrow> event list \<Rightarrow> bool \<times> event list" where
  "download_image w url filepath tr =
     (case syscall w (Urlretrieve url filepath) tr of
        (None, tr1) \<Rightarrow> (True, tr1)
      | (Some e, tr1) \<Rightarrow> (False, print (download_failed_msg e) tr1))"

text \<open>\<^verbatim>\<open>import_to_simulator\<close>: only \<^verbatim>\<open>CalledProcessError\<close> is caught.\<close>

definition import_to_simulator ::
  "world \<Rightarrow> string \<Rightarrow> string \<Rightarrow> event list \<Rightarrow> (exn + bool) \<times> event list" where
  "import_to_simulator w simulator_id filepath tr =
     (case syscall w (Simctl_addmedia simulator_id filepath) tr of
        (None, tr1) \<Rightarrow> (Inr True, tr1)
      | (Some (CalledProcessError m), tr1) \<Rightarrow>
          (Inr False, print (import_failed_msg (CalledProcessError m)) tr1)
      | (Some e, tr1) \<Rightarrow> (Inl e, tr1))"

text \<open>The f-string \<^verbatim>\<open>f"{temp_dir}/{city}_{i}.jpg"\<close>.\<close>

definition filename_of :: "string \<Rightarrow> nat \<Rightarrow> string" where
  "filename_of city i = temp_dir @ ''/'' @ city @ ''_'' @ str_nat i @ ''.jpg''"

text \<open>
  The body of the inner loop of \<^verbatim>\<open>main\<close> for one \<^verbatim>\<open>(i, url)\<close>, on the trace and the
  counter \<^verbatim>\<open>total_imported\<close>. The first component is the exception that leaves the body,
  if any: \<^verbatim>\<open>os.remove\<close> is called outside any \<^verbatim>\<open>try\<close>.
\<close>

definition process_item ::
  "world \<Rightarrow> string \<Rightarrow> string \<Rightarrow> nat \<times> string \<Rightarrow> event list \<times> nat
     \<Rightarrow> exn option \<times> event list \<times> nat" where
  "process_item w simulator_id city iu s =
     (case (iu, s) of ((i, url), (tr, total_imported)) \<Rightarrow>
        (let filename = filename_of city i;
             tr1 = print (downloading_msg city i) tr
         in (case download_image w url filename tr1 of
               (False, tr2) \<Rightarrow> (None, tr2, total_imported)
             | (True, tr2) \<Rightarrow>
                 (let tr3 = print downloaded_msg tr2
                  in (case import_to_simulator w simulator_id filename tr3 of
                        (Inl e, tr4) \<Rightarrow> (Some e, tr4, total_imported)
                      | (Inr imported, tr4) \<Rightarrow>
                          (let (tr5, total_imported1) =
                                 (if imported
                                  then (print imported_msg tr4, total_imported + 1)
                                  else (tr4, total_imported))
                           in (case syscall w (Remove filename) tr5 of
                                 (None, tr6) \<Rightarrow> (None, tr6, total_imported1)
                               | (Some e, tr6) \<Rightarrow> (Some e, tr6, total_imported1))))))))"

text \<open>\<^verbatim>\<open>for i, url in enumerate(urls, 1)\<close>: an exception ends the loop.\<close>

fun for_urls ::
  "world \<Rightarrow> string \<Rightarrow> string \<Rightarrow> (nat \<times> string) list \<Rightarrow> event list \<times> nat
     \<Rightarrow> exn option \<times> event list \<times> nat" where
  "for_urls w simulator_id city [] s = (None, s)"
| "for_urls w simulator_id city (iu # rest) s =
     (case process_item w simulator_id city iu s of
        (None, s1) \<Rightarrow> for_urls w simulator_id city rest s1
      | (Some e, s1) \<Rightarrow> (Some e, s1))"

text \<open>
  \<^verbatim>\<open>for city, urls in IMAGES.items()\<close>; the \<^verbatim>\<open>print()\<close> after the inner loop prints an
  empty line.
\<close>

fun for_cities ::
  "world \<Rightarrow> string \<Rightarrow> (string \<times> string list) list \<Rightarrow> event list \<times> nat
     \<Rightarrow> exn option \<times> event list \<times> nat" where
  "for_cities w simulator_id [] s = (None, s)"
| "for_cities w simulator_id ((city, urls) # rest) s =
     (case s of (tr, total_imported) \<Rightarrow>
        (let tr1 = print (processing_msg city) tr
         in (case for_urls w simulator_id city (enumerate 1 urls) (tr1, total_imported) of
               (Some e, s1) \<Rightarrow> (Some e, s1)
             | (None, tr2, total_imported1) \<Rightarrow>
                 for_cities w simulator_id rest (print [] tr2, total_imported1))))"

text \<open>
  \<^verbatim>\<open>main\<close>. \<^verbatim>\<open>not simulator_id\<close> holds for \<^verbatim>\<open>None\<close> and for the empty string. The final
  \<^verbatim>\<open>os.rmdir\<close> sits in a \<^verbatim>\<open>try\<close> with a bare \<^verbatim>\<open>except: pass\<close>; \<^verbatim>\<open>os.makedirs\<close> is called
  outside any \<^verbatim>\<open>try\<close>.
\<close>

definition main :: "world \<Rightarrow> raised option \<times> event list" where
  "main w =
     (let tr0 = print start_msg []
      in (case get_simulator_id w tr0 of
            (Inl e, tr1) \<Rightarrow> (Some (Uncaught e), tr1)
          | (Inr simulator_id, tr1) \<Rightarrow>
              (if simulator_id = None \<or> simulator_id = Some []
               then
                 (let tr2 = print no_simulator_msg tr1;
                      tr3 = print please_start_msg tr2
                  in (Some (SystemExit 1), tr3))
               else
                 (let sid = the simulator_id;
                      tr2 = print (found_msg sid) tr1
                  in (case syscall w (Makedirs temp_dir) tr2 of
                        (Some e, tr3) \<Rightarrow> (Some (Uncaught e), tr3)
                      | (None, tr3) \<Rightarrow>
                          (let tr4 = print created_msg tr3
                           in (case for_cities w sid IMAGES (tr4, 0) of
                                 (Some e, tr5, total_imported) \<Rightarrow> (Some (Uncaught e), tr5)
                               | (None, tr5, total_imported) \<Rightarrow>
                                   (let tr6 = snd (syscall w (Rmdir temp_dir) tr5);
                                        tr7 = print (done_msg total_imported) tr6;
                                        tr8 = print open_photos_msg tr7
                                    in (None, tr8)))))))))"

text \<open>
  The exit status of the interpreter running \<^verbatim>\<open>main()\<close> as the script's last statement:
  0 when \<^verbatim>\<open>main\<close> returns, the argument of \<^verbatim>\<open>sys.exit\<close>, and 1 after the traceback of an
  uncaught exception.
\<close>

fun exit_status :: "raised option \<Rightarrow> nat" where
  "exit_status None = 0"
| "exit_status (Some (SystemExit n)) = n"
| "exit_status (Some (Uncaught e)) = 1"

section \<open>The items of a run\<close>

text \<open>
  The triples \<^verbatim>\<open>(city, i, url)\<close> that the two nested loops of \<^verbatim>\<open>main\<close> visit, in the
  order in which they visit them: \<^verbatim>\<open>for city, urls in IMAGES.items()\<close>, then
  \<^verbatim>\<open>for i, url in enumerate(urls, 1)\<close>.
\<close>

definition catalog_items :: "(string \<times> string list) list \<Rightarrow> (string \<times> nat \<times> string) list" where
  "catalog_items imgs =
     concat (map (\<lambda>(city, urls). map (\<lambda>(i, url). (city, i, url)) (enumerate 1 urls)) imgs)"

text \<open>The file an item is downloaded to.\<close>

definition item_path :: "string \<times> nat \<times> string \<Rightarrow> string" where
  "item_path item = (case item of (city, i, url) \<Rightarrow> filename_of city i)"

section \<open>Reading a trace\<close>

text \<open>The file that a call works on, for the three calls of the loop body.\<close>

fun call_path :: "call \<Rightarrow> string option" where
  "call_path (Urlretrieve url filepath) = Some filepath"
| "call_path (Simctl_addmedia simulator_id filepath) = Some filepath"
| "call_path (Remove filepath) = Some filepath"
| "call_path Simctl_list_devices = None"
| "call_path (Makedirs d) = None"
| "call_path (Rmdir d) = None"

fun event_path :: "event \<Rightarrow> string option" where
  "event_path (Call c r) = call_path c"
| "event_path (Print s) = None"

text \<open>The calls of a trace that work on a given file, in their order.\<close>

definition item_calls :: "event list \<Rightarrow> string \<Rightarrow> event list" where
  "item_calls tr filepath = filter (\<lambda>ev. event_path ev = Some filepath) tr"

fun is_download :: "event \<Rightarrow> bool" where
  "is_download (Call (Urlretrieve url filepath) r) = True"
| "is_download ev = False"

fun is_import :: "event \<Rightarrow> bool" where
  "is_import (Call (Simctl_addmedia simulator_id filepath) r) = True"
| "is_import ev = False"


fun is_makedirs :: "event \<Rightarrow> bool" where
  "is_makedirs (Call (Makedirs d) r) = True"
| "is_makedirs ev = False"

text \<open>
  An item succeeded in a trace when \<^verbatim>\<open>urlretrieve\<close> for its URL and file returned and
  \<^verbatim>\<open>simctl addmedia\<close> for its file returned, that is, when \<^verbatim>\<open>download_image\<close> and then
  \<^verbatim>\<open>import_to_simulator\<close> returned \<^verbatim>\<open>True\<close> for it.
\<close>

fun import_ok_at :: "string \<Rightarrow> event \<Rightarrow> bool" where
  "import_ok_at filepath (Call (Simctl_addmedia simulator_id f) None) = (f = filepath)"
| "import_ok_at filepath ev = False"

definition item_succeeded :: "event list \<Rightarrow> string \<times> nat \<times> string \<Rightarrow> bool" where
  "item_succeeded tr item =
     (case item of (city, i, url) \<Rightarrow>
        Call (Urlretrieve url (filename_of city i)) None \<in> set tr
        \<and> list_ex (import_ok_at (filename_of city i)) tr)"

text \<open>
  The exceptions of \<^verbatim>\<open>subprocess.run\<close> that \<^verbatim>\<open>import_to_simulator\<close> catches.
\<close>

fun is_CalledProcessError :: "exn \<Rightarrow> bool" where
  "is_CalledProcessError (CalledProcessError m) = True"
| "is_CalledProcessError e = False"

text \<open>
  The shapes that the calls on one item's file can have in a trace: none (the item was
  not reached); a failed download alone; a download and an import that raised something
  other than \<^verbatim>\<open>CalledProcessError\<close>; a download, an import that returned \<^verbatim>\<open>True\<close> or
  \<^verbatim>\<open>False\<close>, and the removal of the file.
\<close>

fun item_protocol :: "string \<Rightarrow> string \<Rightarrow> string \<Rightarrow> event list \<Rightarrow> bool" where
  "item_protocol sid url f [] = True"
| "item_protocol sid url f [Call c1 r1] = (c1 = Urlretrieve url f \<and> r1 \<noteq> None)"
| "item_protocol sid url f [Call c1 r1, Call c2 r2] =
     (c1 = Urlretrieve url f \<and> r1 = None \<and> c2 = Simctl_addmedia sid f
      \<and> (case r2 of None \<Rightarrow> False | Some e \<Rightarrow> \<not> is_CalledProcessError e))"
| "item_protocol sid url f [Call c1 r1, Call c2 r2, Call c3 r3] =
     (c1 = Urlretrieve url f \<and> r1 = None \<and> c2 = Simctl_addmedia sid f
      \<and> (case r2 of None \<Rightarrow> True | Some e \<Rightarrow> is_CalledProcessError e)
      \<and> c3 = Remove f)"
| "item_protocol sid url f evs = False"

text \<open>
  What a stretch of the trace looks like when it was written while the loops went over
  the items \<open>its\<close>: its calls work on the files of these items only, the calls on each
  item's file follow the protocol, and \<open>k\<close> of the items succeeded.
\<close>

definition run_segment ::
  "string \<Rightarrow> (string \<times> nat \<times> string) list \<Rightarrow> event list \<Rightarrow> nat \<Rightarrow> bool" where
  "run_segment sid its evs k =
     ((\<forall>ev\<in>set evs. event_path ev = None \<or> event_path ev \<in> Some ` item_path ` set its)
      \<and> (\<forall>item\<in>set its.
            item_protocol sid (snd (snd item)) (item_path item) (item_calls evs (item_path item)))
      \<and> k = length (filter (item_succeeded evs) its))"

text \<open>
  A world in which the calls that the script makes outside any \<^verbatim>\<open>try\<close>, or inside one
  that does not catch them, never raise: \<^verbatim>\<open>os.makedirs\<close> and \<^verbatim>\<open>os.remove\<close> return, and
  \<^verbatim>\<open>simctl addmedia\<close> raises nothing but \<^verbatim>\<open>CalledProcessError\<close>. Downloads, the import
  tool's exit status and \<^verbatim>\<open>os.rmdir\<close> are free.
\<close>

fun unguarded_ok :: "call \<Rightarrow> exn option \<Rightarrow> bool" where
  "unguarded_ok c None = True"
| "unguarded_ok (Makedirs d) (Some e) = False"
| "unguarded_ok (Remove filepath) (Some e) = False"
| "unguarded_ok (Simctl_addmedia simulator_id filepath) (Some e) = is_CalledProcessError e"
| "unguarded_ok c (Some e) = True"

definition no_unguarded_error :: "world \<Rightarrow> bool" where
  "no_unguarded_error w = (\<forall>tr c. unguarded_ok c (respond w tr c))"

section \<open>Example worlds\<close>

text \<open>
  Concrete worlds on which the theorems below are instantiated. In the first, the device
  list names a booted simulator and every call succeeds.
\<close>

definition world_all_ok :: world where
  "world_all_ok =
     \<lparr>devices_stdout =
        ''== Devices ==\<newline>-- iOS 17.0 --\<newline>    iPhone 14 (11111111-2222-3333-4444-555555555555) (Shutdown)\<newline>    iPhone 15 (ABCD-1234) (Booted)\<newline>'',
      respond = (\<lambda>tr c. None)\<rparr>"

definition world_list_fails :: world where
  "world_list_fails =
     \<lparr>devices_stdout = [],
      respond = (\<lambda>tr c. if c = Simctl_list_devices
                          then Some (CalledProcessError ''Command returned non-zero exit status 72.'')
                          else None)\<rparr>"

definition world_lowercase_marker :: world where
  "world_lowercase_marker =
     \<lparr>devices_stdout = ''    iPhone 15 (ABCD-1234) (booted)\<newline>    iPad (EF-56) (BOOTED)\<newline>'',
      respond = (\<lambda>tr c. None)\<rparr>"

text \<open>
  A world in which \<^verbatim>\<open>os.remove\<close> raises (the directory does not allow the file to be
  unlinked), and one in which \<^verbatim>\<open>os.makedirs\<close> raises (the path exists and is a regular
  file). Everything else succeeds.
\<close>

definition world_remove_fails :: world where
  "world_remove_fails =
     \<lparr>devices_stdout = ''    iPhone 15 (ABCD-1234) (Booted)\<newline>'',
      respond = (\<lambda>tr c. case c of
                   Remove filepath \<Rightarrow> Some (OSError ''[Errno 13] Permission denied'')
                 | _ \<Rightarrow> None)\<rparr>"

definition world_makedirs_fails :: world where
  "world_makedirs_fails =
     \<lparr>devices_stdout = ''    iPhone 15 (ABCD-1234) (Booted)\<newline>'',
      respond = (\<lambda>tr c. case c of
                   Makedirs d \<Rightarrow> Some (OSError ''[Errno 17] File exists'')
                 | _ \<Rightarrow> None)\<rparr>"

text \<open>
  A world with per-item failures: every download of one URL fails (it stands twice in
  \<^verbatim>\<open>berlin\<close>), the import tool exits with a non-zero status for one file, and the final
  \<^verbatim>\<open>os.rmdir\<close> raises.
\<close>

definition world_flaky :: world where
  "world_flaky =
     \<lparr>devices_stdout = ''    iPhone 15 (ABCD-1234) (Booted)\<newline>'',
      respond = (\<lambda>tr c. case c of
                   Urlretrieve url filepath \<Rightarrow>
                     (if url = ''https://images.unsplash.com/photo-1560969184-10fe8719e047?w=800''
                      then Some (URLError ''HTTP Error 404: Not Found'') else None)
                 | Simctl_addmedia simulator_id filepath \<Rightarrow>
                     (if filepath = ''/tmp/wanderlog_test_images/paris_3.jpg''
                      then Some (CalledProcessError ''Command returned non-zero exit status 1.'')
                      else None)
                 | Rmdir d \<Rightarrow> Some (OSError ''[Errno 66] Directory not empty'')
                 | _ \<Rightarrow> None)\<rparr>"

text \<open>A world in which the import tool cannot be started for lack of memory.\<close>

definition world_import_cannot_start :: world where
  "world_import_cannot_start =
     \<lparr>devices_stdout = ''    iPhone 15 (ABCD-1234) (Booted)\<newline>'',
      respond = (\<lambda>tr c. case c of
                   Simctl_addmedia simulator_id filepath \<Rightarrow>
                     Some (OSError ''[Errno 12] Cannot allocate memory'')
                 | _ \<Rightarrow> None)\<rparr>"

section \<open>Decimal numbers and file names\<close>

lemma of_char_digit_char: "d < 10 \<Longrightarrow> (of_char (digit_char d) :: nat) = 48 + d"
  by (simp add: digit_char_def)

lemma digit_char_inj:
  assumes "a < 10" "b < 10" "digit_char a = digit_char b"
  shows "a = b"
proof -
  have "(of_char (digit_char a) :: nat) = of_char (digit_char b)"
    by (simp only: assms(3))
  then have "48 + a = 48 + b"
    by (simp only: of_char_digit_char [OF assms(1)] of_char_digit_char [OF assms(2)])
  then show ?thesis by simp
qed

lemma str_nat_nonempty: "str_nat n \<noteq> []"
  by (subst str_nat.simps) simp

lemma str_nat_digits: "c \<in> set (str_nat n) \<Longrightarrow> 48 \<le> (of_char c :: nat) \<and> (of_char c :: nat) \<le> 57"
proof (induction n rule: str_nat.induct)
  case (1 n)
  show ?case
  proof (cases "n < 10")
    case True
    with "1.prems" have "c = digit_char n" by (subst (asm) str_nat.simps) simp
    with True show ?thesis by (simp add: of_char_digit_char)
  next
    case False
    with "1.prems" have "c \<in> set (str_nat (n div 10)) \<or> c = digit_char (n mod 10)"
      by (subst (asm) str_nat.simps) auto
    then show ?thesis
    proof
      assume "c \<in> set (str_nat (n div 10))"
      with False "1.IH" show ?thesis by simp
    next
      assume "c = digit_char (n mod 10)"
      then show ?thesis by (simp add: of_char_digit_char)
    qed
  qed
qed

lemma str_nat_inj: "str_nat n = str_nat m \<Longrightarrow> n = m"
proof (induction n arbitrary: m rule: str_nat.induct)
  case (1 n)
  show ?case
  proof (cases "n < 10")
    case n_small: True
    show ?thesis
    proof (cases "m < 10")
      case True
      with n_small "1.prems" have "digit_char n = digit_char m"
        by (simp add: str_nat.simps [of n] str_nat.simps [of m])
      with n_small True show ?thesis by (rule digit_char_inj)
    next
      case False
      with n_small "1.prems" have "str_nat (m div 10) = []"
        by (simp add: str_nat.simps [of n] str_nat.simps [of m])
      then show ?thesis by (simp add: str_nat_nonempty)
    qed
  next
    case n_big: False
    show ?thesis
    proof (cases "m < 10")
      case True
      with n_big "1.prems" have "str_nat (n div 10) = []"
        by (simp add: str_nat.simps [of n] str_nat.simps [of m])
      then show ?thesis by (simp add: str_nat_nonempty)
    next
      case False
      with n_big "1.prems" have eq: "str_nat (n div 10) = str_nat (m div 10)"
        and d: "digit_char (n mod 10) = digit_char (m mod 10)"
        by (simp_all add: str_nat.simps [of n] str_nat.simps [of m])
      from n_big eq have "n div 10 = m div 10" by (rule "1.IH")
      moreover from d have "n mod 10 = m mod 10" by (intro digit_char_inj) simp_all
      ultimately show ?thesis by (metis div_mult_mod_eq)
    qed
  qed
qed

lemma last_sep_unique:
  assumes "x \<notin> set s" "x \<notin> set t" "c @ x # s = d @ x # t"
  shows "c = d \<and> s = t"
proof -
  have tw: "\<And>c s. x \<notin> set s \<Longrightarrow> takeWhile (\<lambda>y. y \<noteq> x) (rev (c @ x # s)) = rev s"
    by (auto simp: takeWhile_tail)
  from assms(3) have "takeWhile (\<lambda>y. y \<noteq> x) (rev (c @ x # s)) = takeWhile (\<lambda>y. y \<noteq> x) (rev (d @ x # t))"
    by simp
  with tw [OF assms(1), of c] tw [OF assms(2), of d] have "rev s = rev t" by simp
  then have "s = t" by simp
  with assms(3) show ?thesis by simp
qed

lemma underscore_not_in_str_nat: "CHR ''_'' \<notin> set (str_nat n)"
proof
  assume "CHR ''_'' \<in> set (str_nat n)"
  then have "(of_char (CHR ''_'') :: nat) \<le> 57" using str_nat_digits by blast
  then show False by simp
qed

lemma filename_of_inj: "filename_of c i = filename_of d j \<Longrightarrow> c = d \<and> i = j"
proof -
  assume "filename_of c i = filename_of d j"
  then have "c @ CHR ''_'' # str_nat i = d @ CHR ''_'' # str_nat j"
    by (simp add: filename_of_def)
  then have "c = d \<and> str_nat i = str_nat j"
    by (rule last_sep_unique [OF underscore_not_in_str_nat underscore_not_in_str_nat])
  then show ?thesis by (auto dest: str_nat_inj)
qed


section \<open>The catalog and the file names\<close>

lemma distinct_IMAGES_keys: "distinct (map fst IMAGES)"
  by (simp add: IMAGES_def)

lemma length_catalog_items_IMAGES: "length (catalog_items IMAGES) = 30"
  by (simp add: catalog_items_def IMAGES_def)

lemma distinct_catalog_paths: "distinct (map item_path (catalog_items IMAGES))"
  by code_simp

text \<open>
  C9. The catalog has a URL twice inside one category (the first and the ninth entry of
  \<^verbatim>\<open>berlin\<close> are the same string) and a URL shared by two categories (the third entry of
  \<^verbatim>\<open>berlin\<close> is the sixth entry of \<^verbatim>\<open>copenhagen\<close>), while the three category labels are
  pairwise different.
\<close>

theorem IMAGES_duplicate_urls:
  "(\<exists>berlin copenhagen.
      urls_of ''berlin'' = Some berlin \<and> urls_of ''copenhagen'' = Some copenhagen
      \<and> berlin ! 0 = berlin ! 8 \<and> 8 < length berlin \<and> \<not> distinct berlin
      \<and> berlin ! 2 = copenhagen ! 5 \<and> 5 < length copenhagen)
   \<and> distinct (map fst IMAGES)
   \<and> map fst IMAGES = [''copenhagen'', ''paris'', ''berlin'']"
  by (simp add: urls_of_def IMAGES_def)

text \<open>
  C7. Two items that differ in category or in 1-based index get different temporary
  file names, whatever their URLs are (for all categories and indices, so also when two
  catalog items have the same URL); the thirty file names of the catalog are pairwise
  different.
\<close>

theorem temporary_filenames_unique:
  "((city1, index1) \<noteq> (city2, index2)
      \<longrightarrow> filename_of city1 index1 \<noteq> filename_of city2 index2)
   \<and> distinct (map item_path (catalog_items IMAGES))
   \<and> length (catalog_items IMAGES) = 30"
proof (intro conjI impI)
  assume "(city1, index1) \<noteq> (city2, index2)"
  then show "filename_of city1 index1 \<noteq> filename_of city2 index2"
    using filename_of_inj by blast
next
  show "distinct (map item_path (catalog_items IMAGES))" by (rule distinct_catalog_paths)
  show "length (catalog_items IMAGES) = 30" by (rule length_catalog_items_IMAGES)
qed

theorem temporary_filenames_unique_witness:
  "(''berlin'', 1, ''https://images.unsplash.com/photo-1560969184-10fe8719e047?w=800'')
      \<in> set (catalog_items IMAGES)
   \<and> (''berlin'', 9, ''https://images.unsplash.com/photo-1560969184-10fe8719e047?w=800'')
      \<in> set (catalog_items IMAGES)
   \<and> (''berlin'', 1::nat) \<noteq> (''berlin'', 9)
   \<and> filename_of ''berlin'' 1 \<noteq> filename_of ''berlin'' 9
   \<and> filename_of ''berlin'' 1 = ''/tmp/wanderlog_test_images/berlin_1.jpg''
   \<and> filename_of ''berlin'' 9 = ''/tmp/wanderlog_test_images/berlin_9.jpg''"
proof -
  have a: "(''berlin'', 1, ''https://images.unsplash.com/photo-1560969184-10fe8719e047?w=800'')
      \<in> set (catalog_items IMAGES)" by code_simp
  have b: "(''berlin'', 9, ''https://images.unsplash.com/photo-1560969184-10fe8719e047?w=800'')
      \<in> set (catalog_items IMAGES)" by code_simp
  have c: "(''berlin'', 1::nat) \<noteq> (''berlin'', 9)" by simp
  have d: "filename_of ''berlin'' 1 = ''/tmp/wanderlog_test_images/berlin_1.jpg''" by code_simp
  have e: "filename_of ''berlin'' 9 = ''/tmp/wanderlog_test_images/berlin_9.jpg''" by code_simp
  from temporary_filenames_unique [of "''berlin''" 1 "''berlin''" 9] c
  have "filename_of ''berlin'' 1 \<noteq> filename_of ''berlin'' 9" by blast
  with a b c d e show ?thesis by (intro conjI)
qed

section \<open>The Device Locator\<close>

lemma str_in_iff_sublist: "str_in needle hay \<longleftrightarrow> sublist needle hay"
  by (induction hay) (simp_all add: sublist_Cons_right)

lemma split_nl_nonempty: "split_nl s \<noteq> []"
  by (induction s) (auto split: list.splits)

lemma char_eqI: "(of_char c :: nat) = of_char d \<Longrightarrow> c = d"
  by simp

lemma upper_hex_cases:
  assumes "65 \<le> (of_char c :: nat)" "(of_char c :: nat) \<le> 70"
  shows "c \<in> set ''ABCDEF''"
proof -
  from assms have "(of_char c :: nat) = 65 \<or> (of_char c :: nat) = 66 \<or> (of_char c :: nat) = 67
      \<or> (of_char c :: nat) = 68 \<or> (of_char c :: nat) = 69 \<or> (of_char c :: nat) = 70"
    by arith
  then have "c = CHR ''A'' \<or> c = CHR ''B'' \<or> c = CHR ''C'' \<or> c = CHR ''D'' \<or> c = CHR ''E''
      \<or> c = CHR ''F''"
    by (elim disjE) (simp_all add: char_eqI)
  then show ?thesis by auto
qed

lemma digit_cases:
  assumes "48 \<le> (of_char c :: nat)" "(of_char c :: nat) \<le> 57"
  shows "c \<in> set ''0123456789''"
proof -
  from assms have "(of_char c :: nat) = 48 \<or> (of_char c :: nat) = 49 \<or> (of_char c :: nat) = 50
      \<or> (of_char c :: nat) = 51 \<or> (of_char c :: nat) = 52 \<or> (of_char c :: nat) = 53
      \<or> (of_char c :: nat) = 54 \<or> (of_char c :: nat) = 55 \<or> (of_char c :: nat) = 56
      \<or> (of_char c :: nat) = 57"
    by arith
  then have "c = CHR ''0'' \<or> c = CHR ''1'' \<or> c = CHR ''2'' \<or> c = CHR ''3'' \<or> c = CHR ''4''
      \<or> c = CHR ''5'' \<or> c = CHR ''6'' \<or> c = CHR ''7'' \<or> c = CHR ''8'' \<or> c = CHR ''9''"
    by (elim disjE) (simp_all add: char_eqI)
  then show ?thesis by auto
qed

lemma uuid_char_iff: "uuid_char c \<longleftrightarrow> c \<in> set ''ABCDEF0123456789-''"
proof
  assume "uuid_char c"
  then consider "65 \<le> (of_char c :: nat) \<and> (of_char c :: nat) \<le> 70"
    | "48 \<le> (of_char c :: nat) \<and> (of_char c :: nat) \<le> 57" | "c = CHR ''-''"
    by (auto simp: uuid_char_def)
  then show "c \<in> set ''ABCDEF0123456789-''"
  proof cases
    case 1
    then have "c \<in> set ''ABCDEF''" by (intro upper_hex_cases) simp_all
    then show ?thesis by auto
  next
    case 2
    then have "c \<in> set ''0123456789''" by (intro digit_cases) simp_all
    then show ?thesis by auto
  next
    case 3
    then show ?thesis by simp
  qed
next
  assume "c \<in> set ''ABCDEF0123456789-''"
  then show "uuid_char c" by (auto simp: uuid_char_def)
qed

lemma paren_not_uuid: "\<not> uuid_char CHR ''(''" "\<not> uuid_char CHR '')''"
  by (simp_all add: uuid_char_def)

lemma match_here_Some:
  assumes "match_here cs = Some tok"
  shows "tok \<noteq> [] \<and> (\<forall>c\<in>set tok. uuid_char c) \<and> (\<exists>post. cs = tok @ CHR '')'' # post)"
proof -
  from assms have tok: "tok = takeWhile uuid_char cs" and ne: "tok \<noteq> []"
    and rest: "dropWhile uuid_char cs \<noteq> []" and hd: "hd (dropWhile uuid_char cs) = CHR '')''"
    by (auto simp: match_here_def Let_def split: if_splits)
  from rest hd obtain post where "dropWhile uuid_char cs = CHR '')'' # post"
    by (cases "dropWhile uuid_char cs") auto
  then have "cs = tok @ CHR '')'' # post"
    using takeWhile_dropWhile_id [of uuid_char cs] tok by simp
  moreover have "\<forall>c\<in>set tok. uuid_char c" using tok by (auto dest: set_takeWhileD)
  ultimately show ?thesis using ne by blast
qed

lemma match_here_complete:
  assumes "tok \<noteq> []" "\<forall>c\<in>set tok. uuid_char c"
  shows "match_here (tok @ CHR '')'' # post) = Some tok"
proof -
  have "takeWhile uuid_char (tok @ CHR '')'' # post) = tok"
    using assms(2) by (simp add: takeWhile_tail paren_not_uuid)
  moreover have "dropWhile uuid_char (tok @ CHR '')'' # post) = CHR '')'' # post"
    using assms(2) by (simp add: dropWhile_append2 paren_not_uuid)
  ultimately show ?thesis using assms(1) by (simp add: match_here_def)
qed

lemma re_search_Some:
  "re_search line = Some tok \<Longrightarrow>
     tok \<noteq> [] \<and> (\<forall>c\<in>set tok. uuid_char c)
     \<and> (\<exists>pre post. line = pre @ CHR ''('' # tok @ CHR '')'' # post)"
proof (induction line)
  case Nil
  then show ?case by simp
next
  case (Cons c cs)
  show ?case
  proof (cases "c = CHR ''('' \<and> match_here cs \<noteq> None")
    case True
    with Cons.prems have m: "match_here cs = Some tok" by auto
    from match_here_Some [OF m] obtain post where
      "tok \<noteq> []" "\<forall>c\<in>set tok. uuid_char c" "cs = tok @ CHR '')'' # post" by blast
    with True have "c # cs = [] @ CHR ''('' # tok @ CHR '')'' # post" by simp
    with \<open>tok \<noteq> []\<close> \<open>\<forall>c\<in>set tok. uuid_char c\<close> show ?thesis by blast
  next
    case False
    with Cons.prems have "re_search cs = Some tok" by (auto split: if_splits option.splits)
    from Cons.IH [OF this] obtain pre post where
      "tok \<noteq> []" "\<forall>c\<in>set tok. uuid_char c" "cs = pre @ CHR ''('' # tok @ CHR '')'' # post" by blast
    then have "c # cs = (c # pre) @ CHR ''('' # tok @ CHR '')'' # post" by simp
    with \<open>tok \<noteq> []\<close> \<open>\<forall>c\<in>set tok. uuid_char c\<close> show ?thesis by blast
  qed
qed

lemma re_search_complete:
  assumes "tok \<noteq> []" "\<forall>c\<in>set tok. uuid_char c"
  shows "re_search (pre @ CHR ''('' # tok @ CHR '')'' # post) \<noteq> None"
proof (induction pre)
  case Nil
  from assms show ?case by (simp add: match_here_complete)
next
  case (Cons c pre)
  then show ?case by (auto split: option.splits)
qed

lemma scan_lines_Some:
  "scan_lines ls = Some tok \<Longrightarrow>
     \<exists>pre line post. ls = pre @ line # post
       \<and> (\<forall>l\<in>set pre. \<not> (str_in ''Booted'' l \<and> re_search l \<noteq> None))
       \<and> str_in ''Booted'' line \<and> re_search line = Some tok"
proof (induction ls)
  case Nil
  then show ?case by simp
next
  case (Cons l ls)
  show ?case
  proof (cases "str_in ''Booted'' l \<and> re_search l \<noteq> None")
    case True
    with Cons.prems have "re_search l = Some tok" by auto
    with True have "l # ls = [] @ l # ls \<and> (\<forall>x\<in>set []. \<not> (str_in ''Booted'' x \<and> re_search x \<noteq> None))
        \<and> str_in ''Booted'' l \<and> re_search l = Some tok" by simp
    then show ?thesis by blast
  next
    case False
    with Cons.prems have "scan_lines ls = Some tok" by (auto split: if_splits option.splits)
    from Cons.IH [OF this] obtain pre line post where
      *: "ls = pre @ line # post" "\<forall>l\<in>set pre. \<not> (str_in ''Booted'' l \<and> re_search l \<noteq> None)"
         "str_in ''Booted'' line" "re_search line = Some tok" by blast
    from * False have "l # ls = (l # pre) @ line # post
        \<and> (\<forall>x\<in>set (l # pre). \<not> (str_in ''Booted'' x \<and> re_search x \<noteq> None))
        \<and> str_in ''Booted'' line \<and> re_search line = Some tok" by simp
    then show ?thesis by blast
  qed
qed

lemma scan_lines_None_iff:
  "scan_lines ls = None \<longleftrightarrow> (\<forall>l\<in>set ls. \<not> (str_in ''Booted'' l \<and> re_search l \<noteq> None))"
  by (induction ls) (auto split: option.splits)


lemma fst_get_simulator_id:
  "fst (get_simulator_id w tr) =
     (case respond w tr Simctl_list_devices of
        None \<Rightarrow> Inr (scan_lines (split_nl (devices_stdout w)))
      | Some (CalledProcessError m) \<Rightarrow> Inr None
      | Some e \<Rightarrow> Inl e)"
  by (simp add: get_simulator_id_def syscall_def split: option.splits exn.splits)

lemma snd_get_simulator_id:
  "snd (get_simulator_id w tr) = tr @ [Call Simctl_list_devices (respond w tr Simctl_list_devices)]"
  by (simp add: get_simulator_id_def syscall_def split: option.splits exn.splits)

lemma get_simulator_id_Some:
  assumes "fst (get_simulator_id w tr) = Inr (Some tok)"
  shows "respond w tr Simctl_list_devices = None"
    and "scan_lines (split_nl (devices_stdout w)) = Some tok"
  using assms by (auto simp: fst_get_simulator_id split: option.splits exn.splits)

lemma token_sublist:
  assumes "re_search line = Some tok"
  shows "sublist (''('' @ tok @ '')'') line"
proof -
  from re_search_Some [OF assms] obtain pre post
    where "line = pre @ CHR ''('' # tok @ CHR '')'' # post" by blast
  then have "line = pre @ (''('' @ tok @ '')'') @ post" by simp
  then show ?thesis unfolding sublist_def by blast
qed

lemma re_search_None_iff:
  "re_search line = None \<longleftrightarrow>
     \<not> (\<exists>pre tok post. line = pre @ ''('' @ tok @ '')'' @ post \<and> tok \<noteq> []
            \<and> (\<forall>c\<in>set tok. uuid_char c))"
proof
  assume none: "re_search line = None"
  show "\<not> (\<exists>pre tok post. line = pre @ ''('' @ tok @ '')'' @ post \<and> tok \<noteq> []
            \<and> (\<forall>c\<in>set tok. uuid_char c))"
  proof
    assume "\<exists>pre tok post. line = pre @ ''('' @ tok @ '')'' @ post \<and> tok \<noteq> []
            \<and> (\<forall>c\<in>set tok. uuid_char c)"
    then obtain pre tok post where "line = pre @ CHR ''('' # tok @ CHR '')'' # post"
      "tok \<noteq> []" "\<forall>c\<in>set tok. uuid_char c" by auto
    then have "re_search line \<noteq> None" by (simp add: re_search_complete)
    with none show False by simp
  qed
next
  assume no: "\<not> (\<exists>pre tok post. line = pre @ ''('' @ tok @ '')'' @ post \<and> tok \<noteq> []
            \<and> (\<forall>c\<in>set tok. uuid_char c))"
  show "re_search line = None"
  proof (rule ccontr)
    assume "re_search line \<noteq> None"
    then obtain tok where "re_search line = Some tok" by auto
    from re_search_Some [OF this] obtain pre post where
      "tok \<noteq> []" "\<forall>c\<in>set tok. uuid_char c" "line = pre @ CHR ''('' # tok @ CHR '')'' # post"
      by blast
    then have "line = pre @ ''('' @ tok @ '')'' @ post \<and> tok \<noteq> [] \<and> (\<forall>c\<in>set tok. uuid_char c)"
      by simp
    with no show False by blast
  qed
qed

lemma re_search_Some_iff_token:
  "re_search line \<noteq> None \<longleftrightarrow>
     (\<exists>tok. tok \<noteq> [] \<and> (\<forall>c\<in>set tok. uuid_char c) \<and> sublist (''('' @ tok @ '')'') line)"
proof -
  have "(\<exists>tok. tok \<noteq> [] \<and> (\<forall>c\<in>set tok. uuid_char c) \<and> sublist (''('' @ tok @ '')'') line)
      \<longleftrightarrow> (\<exists>pre tok post. line = pre @ ''('' @ tok @ '')'' @ post \<and> tok \<noteq> []
            \<and> (\<forall>c\<in>set tok. uuid_char c))"
    unfolding sublist_def by auto
  then show ?thesis using re_search_None_iff [of line] by simp
qed

text \<open>
  C5. \<^verbatim>\<open>get_simulator_id\<close> returns \<^verbatim>\<open>None\<close> when the query command exits with a non-zero
  status (\<^verbatim>\<open>CalledProcessError\<close>). When the command succeeds, the lines of its output
  decide: if no line contains both \<^verbatim>\<open>Booted\<close> and a parenthesised, non-empty token of
  \<^verbatim>\<open>[A-F0-9-]\<close> characters, the result is \<^verbatim>\<open>None\<close>; if some line does, the result is an
  identifier. Every identifier returned is such a token, standing in parentheses on a
  line of the output that contains \<^verbatim>\<open>Booted\<close>.
\<close>

theorem get_simulator_id_scans_lines:
  "(respond w tr Simctl_list_devices = Some (CalledProcessError m)
      \<longrightarrow> fst (get_simulator_id w tr) = Inr None)
   \<and> (respond w tr Simctl_list_devices = None \<longrightarrow>
        ((\<forall>line\<in>set (split_nl (devices_stdout w)).
             \<not> (sublist ''Booted'' line
                \<and> (\<exists>tok. tok \<noteq> [] \<and> (\<forall>c\<in>set tok. uuid_char c)
                       \<and> sublist (''('' @ tok @ '')'') line)))
           \<longrightarrow> fst (get_simulator_id w tr) = Inr None)
        \<and> ((\<exists>line\<in>set (split_nl (devices_stdout w)).
               sublist ''Booted'' line
               \<and> (\<exists>tok. tok \<noteq> [] \<and> (\<forall>c\<in>set tok. uuid_char c)
                      \<and> sublist (''('' @ tok @ '')'') line))
             \<longrightarrow> (\<exists>found. fst (get_simulator_id w tr) = Inr (Some found))))
   \<and> (\<forall>tok. fst (get_simulator_id w tr) = Inr (Some tok) \<longrightarrow>
        (\<exists>line\<in>set (split_nl (devices_stdout w)).
            sublist ''Booted'' line \<and> sublist (''('' @ tok @ '')'') line
            \<and> tok \<noteq> [] \<and> (\<forall>c\<in>set tok. uuid_char c)))"
proof (intro conjI impI allI)
  assume "respond w tr Simctl_list_devices = Some (CalledProcessError m)"
  then show "fst (get_simulator_id w tr) = Inr None" by (simp add: fst_get_simulator_id)
next
  assume ok: "respond w tr Simctl_list_devices = None"
    and no: "\<forall>line\<in>set (split_nl (devices_stdout w)).
             \<not> (sublist ''Booted'' line
                \<and> (\<exists>tok. tok \<noteq> [] \<and> (\<forall>c\<in>set tok. uuid_char c)
                       \<and> sublist (''('' @ tok @ '')'') line))"
  from no have "\<forall>line\<in>set (split_nl (devices_stdout w)).
      \<not> (str_in ''Booted'' line \<and> re_search line \<noteq> None)"
    unfolding str_in_iff_sublist re_search_Some_iff_token .
  then have "scan_lines (split_nl (devices_stdout w)) = None"
    unfolding scan_lines_None_iff .
  with ok show "fst (get_simulator_id w tr) = Inr None"
    by (simp add: fst_get_simulator_id)
next
  assume ok: "respond w tr Simctl_list_devices = None"
    and ex: "\<exists>line\<in>set (split_nl (devices_stdout w)).
               sublist ''Booted'' line
               \<and> (\<exists>tok. tok \<noteq> [] \<and> (\<forall>c\<in>set tok. uuid_char c)
                      \<and> sublist (''('' @ tok @ '')'') line)"
  from ex have "\<exists>line\<in>set (split_nl (devices_stdout w)).
      str_in ''Booted'' line \<and> re_search line \<noteq> None"
    unfolding str_in_iff_sublist re_search_Some_iff_token .
  then have "scan_lines (split_nl (devices_stdout w)) \<noteq> None"
    unfolding scan_lines_None_iff by blast
  with ok show "\<exists>found. fst (get_simulator_id w tr) = Inr (Some found)"
    by (auto simp: fst_get_simulator_id)
next
  fix tok
  assume "fst (get_simulator_id w tr) = Inr (Some tok)"
  then have "scan_lines (split_nl (devices_stdout w)) = Some tok" by (rule get_simulator_id_Some)
  from scan_lines_Some [OF this] obtain pre line post where
    *: "split_nl (devices_stdout w) = pre @ line # post" "str_in ''Booted'' line"
    "re_search line = Some tok" by blast
  from re_search_Some [OF *(3)] have "tok \<noteq> []" "\<forall>c\<in>set tok. uuid_char c" by blast+
  with * have "line \<in> set (split_nl (devices_stdout w)) \<and> sublist ''Booted'' line
      \<and> sublist (''('' @ tok @ '')'') line \<and> tok \<noteq> [] \<and> (\<forall>c\<in>set tok. uuid_char c)"
    using token_sublist [of line tok] by (simp add: str_in_iff_sublist)
  then show "\<exists>line\<in>set (split_nl (devices_stdout w)).
      sublist ''Booted'' line \<and> sublist (''('' @ tok @ '')'') line
      \<and> tok \<noteq> [] \<and> (\<forall>c\<in>set tok. uuid_char c)" by blast
qed

theorem get_simulator_id_scans_lines_witness:
  "respond world_list_fails [] Simctl_list_devices
      = Some (CalledProcessError ''Command returned non-zero exit status 72.'')
   \<and> fst (get_simulator_id world_list_fails []) = Inr None
   \<and> respond world_all_ok [] Simctl_list_devices = None
   \<and> fst (get_simulator_id world_all_ok []) = Inr (Some ''ABCD-1234'')
   \<and> (\<exists>line\<in>set (split_nl (devices_stdout world_all_ok)).
         sublist ''Booted'' line \<and> sublist ''(ABCD-1234)'' line)
   \<and> respond world_lowercase_marker [] Simctl_list_devices = None
   \<and> fst (get_simulator_id world_lowercase_marker []) = Inr None"
proof -
  have a: "respond world_list_fails [] Simctl_list_devices
      = Some (CalledProcessError ''Command returned non-zero exit status 72.'')"
    by (simp add: world_list_fails_def)
  have b: "respond world_all_ok [] Simctl_list_devices = None"
    by (simp add: world_all_ok_def)
  have c: "fst (get_simulator_id world_all_ok []) = Inr (Some ''ABCD-1234'')"
    by code_simp
  have d: "respond world_lowercase_marker [] Simctl_list_devices = None"
    by (simp add: world_lowercase_marker_def)
  have "\<forall>line\<in>set (split_nl (devices_stdout world_lowercase_marker)). \<not> sublist ''Booted'' line"
    by code_simp
  then have e: "\<forall>line\<in>set (split_nl (devices_stdout world_lowercase_marker)).
      \<not> (sublist ''Booted'' line
         \<and> (\<exists>tok. tok \<noteq> [] \<and> (\<forall>c\<in>set tok. uuid_char c) \<and> sublist (''('' @ tok @ '')'') line))"
    by blast
  note t1 = get_simulator_id_scans_lines [of world_list_fails "[]"
      "''Command returned non-zero exit status 72.''"]
  note t2 = get_simulator_id_scans_lines [of world_all_ok "[]" "[]"]
  note t3 = get_simulator_id_scans_lines [of world_lowercase_marker "[]" "[]"]
  from t1 a have 1: "fst (get_simulator_id world_list_fails []) = Inr None" by blast
  from t2 c have "\<exists>line\<in>set (split_nl (devices_stdout world_all_ok)).
         sublist ''Booted'' line \<and> sublist (''('' @ ''ABCD-1234'' @ '')'') line
         \<and> ''ABCD-1234'' \<noteq> [] \<and> (\<forall>c\<in>set ''ABCD-1234''. uuid_char c)" by blast
  then have 2: "\<exists>line\<in>set (split_nl (devices_stdout world_all_ok)).
         sublist ''Booted'' line \<and> sublist ''(ABCD-1234)'' line" by auto
  from t3 d e have 3: "fst (get_simulator_id world_lowercase_marker []) = Inr None" by blast
  from a b c d 1 2 3 show ?thesis by (intro conjI)
qed

text \<open>
  C10. An identifier returned by \<^verbatim>\<open>get_simulator_id\<close> is not empty and consists of the
  characters \<^verbatim>\<open>A\<close> to \<^verbatim>\<open>F\<close>, \<^verbatim>\<open>0\<close> to \<^verbatim>\<open>9\<close> and \<^verbatim>\<open>-\<close> only. It is what the pattern
  captures on the first line, in the order of the output, that contains the substring
  \<^verbatim>\<open>Booted\<close> (compared character by character, so case-sensitively) and on which the
  pattern matches. When no line contains \<^verbatim>\<open>Booted\<close> in exactly this casing, no identifier
  is returned.
\<close>

theorem simulator_id_from_first_Booted_line:
  "(fst (get_simulator_id w tr) = Inr (Some tok) \<longrightarrow>
      tok \<noteq> [] \<and> (\<forall>c\<in>set tok. c \<in> set ''ABCDEF0123456789-'')
      \<and> (\<exists>pre line post. split_nl (devices_stdout w) = pre @ line # post
            \<and> (\<forall>l\<in>set pre. \<not> (sublist ''Booted'' l \<and> re_search l \<noteq> None))
            \<and> sublist ''Booted'' line \<and> re_search line = Some tok
            \<and> sublist (''('' @ tok @ '')'') line))
   \<and> ((\<forall>line\<in>set (split_nl (devices_stdout w)). \<not> sublist ''Booted'' line)
        \<longrightarrow> fst (get_simulator_id w tr) \<noteq> Inr (Some tok))"
proof (intro conjI impI)
  assume some: "fst (get_simulator_id w tr) = Inr (Some tok)"
  then have "scan_lines (split_nl (devices_stdout w)) = Some tok" by (rule get_simulator_id_Some)
  from scan_lines_Some [OF this] obtain pre line post where
    *: "split_nl (devices_stdout w) = pre @ line # post"
       "\<forall>l\<in>set pre. \<not> (str_in ''Booted'' l \<and> re_search l \<noteq> None)"
       "str_in ''Booted'' line" "re_search line = Some tok" by blast
  from re_search_Some [OF *(4)] show "tok \<noteq> []" by blast
  from re_search_Some [OF *(4)] show "\<forall>c\<in>set tok. c \<in> set ''ABCDEF0123456789-''"
    unfolding uuid_char_iff by blast
  from * token_sublist [OF *(4)]
  have "split_nl (devices_stdout w) = pre @ line # post
      \<and> (\<forall>l\<in>set pre. \<not> (sublist ''Booted'' l \<and> re_search l \<noteq> None))
      \<and> sublist ''Booted'' line \<and> re_search line = Some tok
      \<and> sublist (''('' @ tok @ '')'') line"
    by (simp add: str_in_iff_sublist)
  then show "\<exists>pre line post. split_nl (devices_stdout w) = pre @ line # post
      \<and> (\<forall>l\<in>set pre. \<not> (sublist ''Booted'' l \<and> re_search l \<noteq> None))
      \<and> sublist ''Booted'' line \<and> re_search line = Some tok
      \<and> sublist (''('' @ tok @ '')'') line" by blast
next
  assume no: "\<forall>line\<in>set (split_nl (devices_stdout w)). \<not> sublist ''Booted'' line"
  show "fst (get_simulator_id w tr) \<noteq> Inr (Some tok)"
  proof
    assume "fst (get_simulator_id w tr) = Inr (Some tok)"
    then have "scan_lines (split_nl (devices_stdout w)) = Some tok" by (rule get_simulator_id_Some)
    moreover from no have "scan_lines (split_nl (devices_stdout w)) = None"
      by (simp add: scan_lines_None_iff str_in_iff_sublist)
    ultimately show False by simp
  qed
qed

theorem simulator_id_from_first_Booted_line_witness:
  "fst (get_simulator_id world_all_ok []) = Inr (Some ''ABCD-1234'')
   \<and> ''ABCD-1234'' \<noteq> [] \<and> set ''ABCD-1234'' \<subseteq> set ''ABCDEF0123456789-''
   \<and> (\<exists>pre line post. split_nl (devices_stdout world_all_ok) = pre @ line # post
         \<and> sublist ''Booted'' line \<and> re_search line = Some ''ABCD-1234'')
   \<and> fst (get_simulator_id world_lowercase_marker []) \<noteq> Inr (Some ''ABCD-1234'')"
proof -
  have a: "fst (get_simulator_id world_all_ok []) = Inr (Some ''ABCD-1234'')"
    by code_simp
  have b: "\<forall>line\<in>set (split_nl (devices_stdout world_lowercase_marker)). \<not> sublist ''Booted'' line"
    by code_simp
  note t1 = simulator_id_from_first_Booted_line [of world_all_ok "[]" "''ABCD-1234''"]
  note t2 = simulator_id_from_first_Booted_line [of world_lowercase_marker "[]" "''ABCD-1234''"]
  from t1 a have 1: "''ABCD-1234'' \<noteq> [] \<and> (\<forall>c\<in>set ''ABCD-1234''. c \<in> set ''ABCDEF0123456789-'')
      \<and> (\<exists>pre line post. split_nl (devices_stdout world_all_ok) = pre @ line # post
            \<and> (\<forall>l\<in>set pre. \<not> (sublist ''Booted'' l \<and> re_search l \<noteq> None))
            \<and> sublist ''Booted'' line \<and> re_search line = Some ''ABCD-1234''
            \<and> sublist (''('' @ ''ABCD-1234'' @ '')'') line)" by blast
  then have 2: "set ''ABCD-1234'' \<subseteq> set ''ABCDEF0123456789-''" by blast
  from 1 have 3: "\<exists>pre line post. split_nl (devices_stdout world_all_ok) = pre @ line # post
         \<and> sublist ''Booted'' line \<and> re_search line = Some ''ABCD-1234''" by blast
  from t2 b have 4: "fst (get_simulator_id world_lowercase_marker []) \<noteq> Inr (Some ''ABCD-1234'')"
    by blast
  from a 2 3 4 show ?thesis by simp
qed

section \<open>The loop body, case by case\<close>

text \<open>
  What \<^verbatim>\<open>download_image\<close>, \<^verbatim>\<open>import_to_simulator\<close> and one pass through the loop body do,
  for each answer of the world.
\<close>

lemma download_image_simps:
  "respond w tr (Urlretrieve url f) = None \<Longrightarrow>
     download_image w url f tr = (True, tr @ [Call (Urlretrieve url f) None])"
  "respond w tr (Urlretrieve url f) = Some e \<Longrightarrow>
     download_image w url f tr
       = (False, tr @ [Call (Urlretrieve url f) (Some e), Print (download_failed_msg e)])"
  by (simp_all add: download_image_def syscall_def print_def)

lemma import_to_simulator_simps:
  "respond w tr (Simctl_addmedia sid f) = None \<Longrightarrow>
     import_to_simulator w sid f tr = (Inr True, tr @ [Call (Simctl_addmedia sid f) None])"
  "respond w tr (Simctl_addmedia sid f) = Some (CalledProcessError m) \<Longrightarrow>
     import_to_simulator w sid f tr
       = (Inr False, tr @ [Call (Simctl_addmedia sid f) (Some (CalledProcessError m)),
                          Print (import_failed_msg (CalledProcessError m))])"
  "respond w tr (Simctl_addmedia sid f) = Some e \<Longrightarrow> \<not> is_CalledProcessError e \<Longrightarrow>
     import_to_simulator w sid f tr = (Inl e, tr @ [Call (Simctl_addmedia sid f) (Some e)])"
  by (cases e; simp add: import_to_simulator_def syscall_def print_def)+

lemma process_item_download_failed:
  assumes "respond w (tr @ [Print (downloading_msg city i)]) (Urlretrieve url (filename_of city i))
             = Some e"
  shows "process_item w sid city (i, url) (tr, n)
           = (None,
              tr @ [Print (downloading_msg city i),
                    Call (Urlretrieve url (filename_of city i)) (Some e),
                    Print (download_failed_msg e)],
              n)"
  using assms by (simp add: process_item_def Let_def download_image_simps print_def)

lemma process_item_import_raised:
  assumes "respond w (tr @ [Print (downloading_msg city i)]) (Urlretrieve url (filename_of city i))
             = None"
    and "respond w (tr @ [Print (downloading_msg city i),
                          Call (Urlretrieve url (filename_of city i)) None,
                          Print downloaded_msg])
           (Simctl_addmedia sid (filename_of city i)) = Some e"
    and "\<not> is_CalledProcessError e"
  shows "process_item w sid city (i, url) (tr, n)
           = (Some e,
              tr @ [Print (downloading_msg city i),
                    Call (Urlretrieve url (filename_of city i)) None,
                    Print downloaded_msg,
                    Call (Simctl_addmedia sid (filename_of city i)) (Some e)],
              n)"
  using assms by (simp add: process_item_def Let_def download_image_simps import_to_simulator_simps print_def)

lemma process_item_imported:
  assumes "respond w (tr @ [Print (downloading_msg city i)]) (Urlretrieve url (filename_of city i))
             = None"
    and "respond w (tr @ [Print (downloading_msg city i),
                          Call (Urlretrieve url (filename_of city i)) None,
                          Print downloaded_msg])
           (Simctl_addmedia sid (filename_of city i)) = None"
    and "respond w (tr @ [Print (downloading_msg city i),
                          Call (Urlretrieve url (filename_of city i)) None,
                          Print downloaded_msg,
                          Call (Simctl_addmedia sid (filename_of city i)) None,
                          Print imported_msg])
           (Remove (filename_of city i)) = r"
  shows "process_item w sid city (i, url) (tr, n)
           = (r,
              tr @ [Print (downloading_msg city i),
                    Call (Urlretrieve url (filename_of city i)) None,
                    Print downloaded_msg,
                    Call (Simctl_addmedia sid (filename_of city i)) None,
                    Print imported_msg,
                    Call (Remove (filename_of city i)) r],
              n + 1)"
  using assms
  by (cases r) (simp_all add: process_item_def Let_def download_image_simps import_to_simulator_simps
      print_def syscall_def)

lemma process_item_import_failed:
  assumes "respond w (tr @ [Print (downloading_msg city i)]) (Urlretrieve url (filename_of city i))
             = None"
    and "respond w (tr @ [Print (downloading_msg city i),
                          Call (Urlretrieve url (filename_of city i)) None,
                          Print downloaded_msg])
           (Simctl_addmedia sid (filename_of city i)) = Some (CalledProcessError m)"
    and "respond w (tr @ [Print (downloading_msg city i),
                          Call (Urlretrieve url (filename_of city i)) None,
                          Print downloaded_msg,
                          Call (Simctl_addmedia sid (filename_of city i)) (Some (CalledProcessError m)),
                          Print (import_failed_msg (CalledProcessError m))])
           (Remove (filename_of city i)) = r"
  shows "process_item w sid city (i, url) (tr, n)
           = (r,
              tr @ [Print (downloading_msg city i),
                    Call (Urlretrieve url (filename_of city i)) None,
                    Print downloaded_msg,
                    Call (Simctl_addmedia sid (filename_of city i)) (Some (CalledProcessError m)),
                    Print (import_failed_msg (CalledProcessError m)),
                    Call (Remove (filename_of city i)) r],
              n)"
  using assms
  by (cases r) (simp_all add: process_item_def Let_def download_image_simps import_to_simulator_simps
      print_def syscall_def)


section \<open>Stretches of the trace\<close>

lemma item_path_inj: "item_path (c, i, u) = item_path (d, j, v) \<Longrightarrow> c = d \<and> i = j"
  by (simp add: item_path_def filename_of_inj)

lemma item_calls_append: "item_calls (xs @ ys) f = item_calls xs f @ item_calls ys f"
  by (simp add: item_calls_def)

lemma item_calls_empty_iff: "item_calls evs f = [] \<longleftrightarrow> (\<forall>ev\<in>set evs. event_path ev \<noteq> Some f)"
  by (auto simp: item_calls_def filter_empty_conv)

lemma import_ok_at_path: "import_ok_at f ev \<Longrightarrow> event_path ev = Some f"
  by (induction f ev rule: import_ok_at.induct) simp_all

lemma item_succeeded_mentions:
  assumes "item_succeeded evs item"
  shows "\<exists>ev\<in>set evs. event_path ev = Some (item_path item)"
proof -
  obtain c i u where item: "item = (c, i, u)" by (cases item)
  with assms have "Call (Urlretrieve u (filename_of c i)) None \<in> set evs"
    by (simp add: item_succeeded_def)
  moreover have "event_path (Call (Urlretrieve u (filename_of c i)) None) = Some (item_path item)"
    by (simp add: item item_path_def)
  ultimately show ?thesis by blast
qed

lemma item_succeeded_append_left:
  assumes "item_calls ys (item_path item) = []"
  shows "item_succeeded (xs @ ys) item = item_succeeded xs item"
proof -
  obtain c i u where item: "item = (c, i, u)" by (cases item)
  from assms have no: "\<forall>ev\<in>set ys. event_path ev \<noteq> Some (filename_of c i)"
    by (simp add: item_calls_empty_iff item item_path_def)
  then have "Call (Urlretrieve u (filename_of c i)) None \<notin> set ys" by fastforce
  moreover from no have "\<not> list_ex (import_ok_at (filename_of c i)) ys"
    by (auto simp: list_ex_iff dest: import_ok_at_path)
  ultimately show ?thesis by (auto simp: item_succeeded_def item list_ex_iff)
qed

lemma item_succeeded_append_right:
  assumes "item_calls xs (item_path item) = []"
  shows "item_succeeded (xs @ ys) item = item_succeeded ys item"
proof -
  obtain c i u where item: "item = (c, i, u)" by (cases item)
  from assms have no: "\<forall>ev\<in>set xs. event_path ev \<noteq> Some (filename_of c i)"
    by (simp add: item_calls_empty_iff item item_path_def)
  then have "Call (Urlretrieve u (filename_of c i)) None \<notin> set xs" by fastforce
  moreover from no have "\<not> list_ex (import_ok_at (filename_of c i)) xs"
    by (auto simp: list_ex_iff dest: import_ok_at_path)
  ultimately show ?thesis by (auto simp: item_succeeded_def item list_ex_iff)
qed

lemma run_segment_no_calls:
  assumes "run_segment sid its evs k" "f \<notin> item_path ` set its"
  shows "item_calls evs f = []"
proof -
  have "event_path ev \<noteq> Some f" if "ev \<in> set evs" for ev
  proof
    assume "event_path ev = Some f"
    moreover from assms(1) that
    have "event_path ev = None \<or> event_path ev \<in> Some ` item_path ` set its"
      by (simp add: run_segment_def)
    ultimately have "f \<in> item_path ` set its" by auto
    with assms(2) show False by simp
  qed
  then show ?thesis by (simp add: item_calls_empty_iff)
qed

lemma run_segment_append:
  assumes 1: "run_segment sid its1 evs1 k1"
    and 2: "run_segment sid its2 evs2 k2"
    and disj: "item_path ` set its1 \<inter> item_path ` set its2 = {}"
  shows "run_segment sid (its1 @ its2) (evs1 @ evs2) (k1 + k2)"
proof -
  have no2: "item_calls evs2 (item_path item) = []" if "item \<in> set its1" for item
    using that disj by (intro run_segment_no_calls [OF 2]) blast
  have no1: "item_calls evs1 (item_path item) = []" if "item \<in> set its2" for item
    using that disj by (intro run_segment_no_calls [OF 1]) blast
  have paths: "\<forall>ev\<in>set (evs1 @ evs2).
      event_path ev = None \<or> event_path ev \<in> Some ` item_path ` set (its1 @ its2)"
    using 1 2 by (auto simp: run_segment_def)
  have proto: "\<forall>item\<in>set (its1 @ its2).
      item_protocol sid (snd (snd item)) (item_path item) (item_calls (evs1 @ evs2) (item_path item))"
  proof
    fix item assume "item \<in> set (its1 @ its2)"
    then consider "item \<in> set its1" | "item \<in> set its2" by auto
    then show "item_protocol sid (snd (snd item)) (item_path item)
        (item_calls (evs1 @ evs2) (item_path item))"
    proof cases
      case 1
      with \<open>run_segment sid its1 evs1 k1\<close> show ?thesis
        by (simp add: item_calls_append no2 run_segment_def)
    next
      case 2
      with \<open>run_segment sid its2 evs2 k2\<close> show ?thesis
        by (simp add: item_calls_append no1 run_segment_def)
    qed
  qed
  have "filter (item_succeeded (evs1 @ evs2)) its1 = filter (item_succeeded evs1) its1"
    by (rule filter_cong) (simp_all add: item_succeeded_append_left no2)
  moreover have "filter (item_succeeded (evs1 @ evs2)) its2 = filter (item_succeeded evs2) its2"
    by (rule filter_cong) (simp_all add: item_succeeded_append_right no1)
  ultimately have "k1 + k2 = length (filter (item_succeeded (evs1 @ evs2)) (its1 @ its2))"
    using 1 2 by (simp add: run_segment_def)
  with paths proto show ?thesis unfolding run_segment_def by blast
qed

lemma run_segment_Nil: "run_segment sid its [] 0"
  by (simp add: run_segment_def item_calls_def item_succeeded_def split_def)

lemma run_segment_Print: "run_segment sid [] [Print s] 0"
  by (simp add: run_segment_def)

lemma run_segment_Call: "call_path c = None \<Longrightarrow> run_segment sid [] [Call c r] 0"
  by (simp add: run_segment_def)


section \<open>The loops\<close>

lemma process_item_segment:
  assumes "process_item w sid city (i, url) (tr, n) = (r, tr', n')"
  shows "\<exists>evs k. tr' = tr @ evs \<and> n' = n + k \<and> run_segment sid [(city, i, url)] evs k"
proof -
  let ?f = "filename_of city i"
  let ?t1 = "tr @ [Print (downloading_msg city i)]"
  let ?t3 = "tr @ [Print (downloading_msg city i), Call (Urlretrieve url ?f) None, Print downloaded_msg]"
  show ?thesis
  proof (cases "respond w ?t1 (Urlretrieve url ?f)")
    case (Some e)
    from process_item_download_failed [OF Some, of sid n] assms
    have "tr' = tr @ [Print (downloading_msg city i), Call (Urlretrieve url ?f) (Some e),
                      Print (download_failed_msg e)]" and "n' = n + 0" by simp_all
    moreover have "run_segment sid [(city, i, url)]
        [Print (downloading_msg city i), Call (Urlretrieve url ?f) (Some e),
         Print (download_failed_msg e)] 0"
      by (simp add: run_segment_def item_path_def item_calls_def item_succeeded_def)
    ultimately show ?thesis by blast
  next
    case dl: None
    show ?thesis
    proof (cases "respond w ?t3 (Simctl_addmedia sid ?f)")
      case None
      from process_item_imported [OF dl None refl, of n] assms
      obtain r3 where "tr' = tr @ [Print (downloading_msg city i), Call (Urlretrieve url ?f) None,
          Print downloaded_msg, Call (Simctl_addmedia sid ?f) None, Print imported_msg,
          Call (Remove ?f) r3]" and "n' = n + 1" by simp
      moreover have "run_segment sid [(city, i, url)]
         [Print (downloading_msg city i), Call (Urlretrieve url ?f) None,
          Print downloaded_msg, Call (Simctl_addmedia sid ?f) None, Print imported_msg,
          Call (Remove ?f) r3] 1"
        by (simp add: run_segment_def item_path_def item_calls_def item_succeeded_def)
      ultimately show ?thesis by blast
    next
      case (Some e)
      show ?thesis
      proof (cases e)
        case (CalledProcessError m)
        from process_item_import_failed [OF dl Some [unfolded CalledProcessError] refl, of n] assms
        obtain r3 where "tr' = tr @ [Print (downloading_msg city i), Call (Urlretrieve url ?f) None,
            Print downloaded_msg, Call (Simctl_addmedia sid ?f) (Some (CalledProcessError m)),
            Print (import_failed_msg (CalledProcessError m)), Call (Remove ?f) r3]"
          and "n' = n + 0" by simp
        moreover have "run_segment sid [(city, i, url)]
           [Print (downloading_msg city i), Call (Urlretrieve url ?f) None,
            Print downloaded_msg, Call (Simctl_addmedia sid ?f) (Some (CalledProcessError m)),
            Print (import_failed_msg (CalledProcessError m)), Call (Remove ?f) r3] 0"
          by (simp add: run_segment_def item_path_def item_calls_def item_succeeded_def)
        ultimately show ?thesis by blast
      next
        case (OSError m)
        then have "\<not> is_CalledProcessError e" by simp
        from process_item_import_raised [OF dl Some this, of n] assms
        have "tr' = tr @ [Print (downloading_msg city i), Call (Urlretrieve url ?f) None,
            Print downloaded_msg, Call (Simctl_addmedia sid ?f) (Some e)]" and "n' = n + 0"
          by simp_all
        moreover have "run_segment sid [(city, i, url)]
           [Print (downloading_msg city i), Call (Urlretrieve url ?f) None,
            Print downloaded_msg, Call (Simctl_addmedia sid ?f) (Some e)] 0"
          by (simp add: run_segment_def item_path_def item_calls_def item_succeeded_def OSError)
        ultimately show ?thesis by blast
      next
        case (URLError m)
        then have "\<not> is_CalledProcessError e" by simp
        from process_item_import_raised [OF dl Some this, of n] assms
        have "tr' = tr @ [Print (downloading_msg city i), Call (Urlretrieve url ?f) None,
            Print downloaded_msg, Call (Simctl_addmedia sid ?f) (Some e)]" and "n' = n + 0"
          by simp_all
        moreover have "run_segment sid [(city, i, url)]
           [Print (downloading_msg city i), Call (Urlretrieve url ?f) None,
            Print downloaded_msg, Call (Simctl_addmedia sid ?f) (Some e)] 0"
          by (simp add: run_segment_def item_path_def item_calls_def item_succeeded_def URLError)
        ultimately show ?thesis by blast
      qed
    qed
  qed
qed

lemma for_urls_segment:
  assumes "for_urls w sid city ius (tr, n) = (r, tr', n')" "distinct (map fst ius)"
  shows "\<exists>evs k. tr' = tr @ evs \<and> n' = n + k
           \<and> run_segment sid (map (\<lambda>(i, url). (city, i, url)) ius) evs k"
  using assms
proof (induction ius arbitrary: tr n)
  case Nil
  then have "tr' = tr @ [] \<and> n' = n + 0 \<and> run_segment sid [] [] 0"
    by (simp add: run_segment_Nil)
  then show ?case by (metis list.simps(8))
next
  case (Cons iu rest)
  obtain i url where iu: "iu = (i, url)" by (cases iu)
  obtain r1 tr1 n1 where step: "process_item w sid city (i, url) (tr, n) = (r1, tr1, n1)"
    by (metis prod_cases3)
  from process_item_segment [OF step] obtain evs1 k1 where
    1: "tr1 = tr @ evs1" "n1 = n + k1" "run_segment sid [(city, i, url)] evs1 k1" by blast
  let ?rest = "map (\<lambda>(i, url). (city, i, url)) rest"
  from Cons.prems(2) have "i \<notin> fst ` set rest" by (simp add: iu)
  then have disj: "item_path ` set [(city, i, url)] \<inter> item_path ` set ?rest = {}"
    by (auto simp: image_iff dest!: item_path_inj)
  show ?case
  proof (cases r1)
    case None
    with Cons.prems(1) step have "for_urls w sid city rest (tr1, n1) = (r, tr', n')"
      by (simp add: iu)
    from Cons.IH [OF this] Cons.prems(2) obtain evs2 k2 where
      2: "tr' = tr1 @ evs2" "n' = n1 + k2" "run_segment sid ?rest evs2 k2" by auto
    from run_segment_append [OF 1(3) 2(3) disj] 1 2
    have "tr' = tr @ (evs1 @ evs2) \<and> n' = n + (k1 + k2)
        \<and> run_segment sid (map (\<lambda>(i, url). (city, i, url)) (iu # rest)) (evs1 @ evs2) (k1 + k2)"
      by (simp add: iu)
    then show ?thesis by blast
  next
    case (Some e)
    with Cons.prems(1) step have "tr' = tr1" "n' = n1" by (simp_all add: iu)
    with run_segment_append [OF 1(3) run_segment_Nil [of sid ?rest] disj] 1
    have "tr' = tr @ evs1 \<and> n' = n + k1
        \<and> run_segment sid (map (\<lambda>(i, url). (city, i, url)) (iu # rest)) evs1 k1"
      by (simp add: iu)
    then show ?thesis by blast
  qed
qed


lemma catalog_items_Cons:
  "catalog_items ((city, urls) # rest)
     = map (\<lambda>(i, url). (city, i, url)) (enumerate 1 urls) @ catalog_items rest"
  by (simp add: catalog_items_def)

lemma catalog_items_city: "item \<in> set (catalog_items imgs) \<Longrightarrow> fst item \<in> fst ` set imgs"
  by (force simp: catalog_items_def)

lemma run_segment_no_paths:
  assumes "\<forall>ev\<in>set evs. event_path ev = None"
  shows "run_segment sid its evs 0"
proof -
  from assms have calls: "item_calls evs f = []" for f
    by (simp add: item_calls_empty_iff)
  have "\<not> item_succeeded evs item" for item
    using item_succeeded_mentions [of evs item] assms by auto
  then have "filter (item_succeeded evs) its = []" by (simp add: filter_empty_conv)
  with assms calls show ?thesis by (simp add: run_segment_def)
qed

lemma run_segment_prefix:
  assumes "\<forall>ev\<in>set pre. event_path ev = None" "run_segment sid its evs k"
  shows "run_segment sid its (pre @ evs) k"
  using run_segment_append [OF run_segment_no_paths [OF assms(1), of sid "[]"] assms(2)] by simp

lemma run_segment_suffix:
  assumes "run_segment sid its evs k" "\<forall>ev\<in>set post. event_path ev = None"
  shows "run_segment sid its (evs @ post) k"
  using run_segment_append [OF assms(1) run_segment_no_paths [OF assms(2), of sid "[]"]] by simp

lemma for_cities_segment:
  assumes "for_cities w sid imgs (tr, n) = (r, tr', n')" "distinct (map fst imgs)"
  shows "\<exists>evs k. tr' = tr @ evs \<and> n' = n + k \<and> run_segment sid (catalog_items imgs) evs k"
  using assms
proof (induction imgs arbitrary: tr n)
  case Nil
  then have "tr' = tr @ [] \<and> n' = n + 0 \<and> run_segment sid (catalog_items []) [] 0"
    by (simp add: run_segment_Nil)
  then show ?case by blast
next
  case (Cons cu rest)
  obtain city urls where cu: "cu = (city, urls)" by (cases cu)
  let ?its = "map (\<lambda>(i, url). (city, i, url)) (enumerate 1 urls)"
  let ?tr1 = "tr @ [Print (processing_msg city)]"
  obtain r1 tr2 n1 where inner: "for_urls w sid city (enumerate 1 urls) (?tr1, n) = (r1, tr2, n1)"
    by (metis prod_cases3)
  have "distinct (map fst (enumerate 1 urls))" by simp
  from for_urls_segment [OF inner this] obtain evs1 k1 where
    1: "tr2 = ?tr1 @ evs1" "n1 = n + k1" "run_segment sid ?its evs1 k1" by blast
  from 1(3) have seg1: "run_segment sid ?its ([Print (processing_msg city)] @ evs1) k1"
    by (intro run_segment_prefix) simp_all
  from Cons.prems(2) have "city \<notin> fst ` set rest" by (simp add: cu)
  then have "city \<notin> fst ` set (catalog_items rest)"
    using catalog_items_city by blast
  then have disj: "item_path ` set ?its \<inter> item_path ` set (catalog_items rest) = {}"
    by (auto simp: image_iff dest!: item_path_inj)
  show ?case
  proof (cases r1)
    case (Some e)
    with Cons.prems(1) inner have "tr' = tr2" "n' = n1"
      by (simp_all add: cu print_def)
    with run_segment_append [OF seg1 run_segment_Nil [of sid "catalog_items rest"] disj] 1
    have "tr' = tr @ ([Print (processing_msg city)] @ evs1) \<and> n' = n + k1
        \<and> run_segment sid (catalog_items (cu # rest)) ([Print (processing_msg city)] @ evs1) k1"
      by (simp add: cu catalog_items_Cons)
    then show ?thesis by blast
  next
    case None
    with Cons.prems(1) inner have "for_cities w sid rest (tr2 @ [Print []], n1) = (r, tr', n')"
      by (simp add: cu print_def)
    from Cons.IH [OF this] Cons.prems(2) obtain evs2 k2 where
      2: "tr' = (tr2 @ [Print []]) @ evs2" "n' = n1 + k2" "run_segment sid (catalog_items rest) evs2 k2"
      by auto
    from 2(3) have seg2: "run_segment sid (catalog_items rest) ([Print []] @ evs2) k2"
      by (intro run_segment_prefix) simp_all
    from run_segment_append [OF seg1 seg2 disj] 1 2
    have "tr' = tr @ (([Print (processing_msg city)] @ evs1) @ ([Print []] @ evs2))
        \<and> n' = n + (k1 + k2)
        \<and> run_segment sid (catalog_items (cu # rest))
             (([Print (processing_msg city)] @ evs1) @ ([Print []] @ evs2)) (k1 + k2)"
      by (simp add: cu catalog_items_Cons)
    then show ?thesis by blast
  qed
qed


section \<open>The whole run\<close>

lemma get_simulator_id_nonempty:
  assumes "fst (get_simulator_id w tr) = Inr (Some sid)"
  shows "sid \<noteq> []"
proof -
  from assms have "scan_lines (split_nl (devices_stdout w)) = Some sid"
    by (rule get_simulator_id_Some)
  from scan_lines_Some [OF this] obtain line where "re_search line = Some sid" by blast
  from re_search_Some [OF this] show ?thesis by blast
qed

lemma get_simulator_id_eq:
  "get_simulator_id w tr
     = (fst (get_simulator_id w tr),
        tr @ [Call Simctl_list_devices (respond w tr Simctl_list_devices)])"
  using snd_get_simulator_id [of w tr] by (metis prod.collapse)

lemma main_locator_raised:
  assumes "fst (get_simulator_id w [Print start_msg]) = Inl e"
  shows "main w = (Some (Uncaught e),
                   [Print start_msg,
                    Call Simctl_list_devices (respond w [Print start_msg] Simctl_list_devices)])"
  using assms get_simulator_id_eq [of w "[Print start_msg]"]
  by (simp add: main_def print_def)

lemma main_no_simulator:
  assumes "fst (get_simulator_id w [Print start_msg]) = Inr None"
  shows "main w = (Some (SystemExit 1),
                   [Print start_msg,
                    Call Simctl_list_devices (respond w [Print start_msg] Simctl_list_devices),
                    Print no_simulator_msg, Print please_start_msg])"
  using assms get_simulator_id_eq [of w "[Print start_msg]"]
  by (simp add: main_def print_def)

lemma main_located:
  assumes "fst (get_simulator_id w [Print start_msg]) = Inr (Some sid)"
  shows "main w =
     (case respond w [Print start_msg, Call Simctl_list_devices None, Print (found_msg sid)]
             (Makedirs temp_dir) of
        Some e \<Rightarrow>
          (Some (Uncaught e),
           [Print start_msg, Call Simctl_list_devices None, Print (found_msg sid),
            Call (Makedirs temp_dir) (Some e)])
      | None \<Rightarrow>
          (case for_cities w sid IMAGES
                  ([Print start_msg, Call Simctl_list_devices None, Print (found_msg sid),
                    Call (Makedirs temp_dir) None, Print created_msg], 0) of
             (Some e, tr5, n) \<Rightarrow> (Some (Uncaught e), tr5)
           | (None, tr5, n) \<Rightarrow>
               (None, tr5 @ [Call (Rmdir temp_dir) (respond w tr5 (Rmdir temp_dir)),
                             Print (done_msg n), Print open_photos_msg])))"
proof -
  from assms have r: "respond w [Print start_msg] Simctl_list_devices = None"
    by (rule get_simulator_id_Some)
  from assms have ne: "sid \<noteq> []" by (rule get_simulator_id_nonempty)
  from assms r get_simulator_id_eq [of w "[Print start_msg]"]
  have g: "get_simulator_id w [Print start_msg]
      = (Inr (Some sid), [Print start_msg, Call Simctl_list_devices None])" by simp
  show ?thesis
    by (simp add: main_def print_def syscall_def g ne Let_def split: option.splits prod.splits)
qed

lemma main_trace:
  "\<exists>sid k. run_segment sid (catalog_items IMAGES) (snd (main w)) k
     \<and> (fst (main w) = None \<longrightarrow>
          (\<exists>tr0 r. snd (main w)
                     = tr0 @ [Call (Rmdir temp_dir) r, Print (done_msg k), Print open_photos_msg]))"
proof (cases "fst (get_simulator_id w [Print start_msg])")
  case (Inl e)
  from main_locator_raised [OF Inl]
  have "run_segment [] (catalog_items IMAGES) (snd (main w)) 0" and "fst (main w) \<noteq> None"
    by (simp_all add: run_segment_no_paths)
  then show ?thesis by - (rule exI [of _ "[]"], rule exI [of _ 0], auto)
next
  case (Inr found)
  show ?thesis
  proof (cases found)
    case None
    from main_no_simulator [OF Inr [unfolded None]]
    have "run_segment [] (catalog_items IMAGES) (snd (main w)) 0" and "fst (main w) \<noteq> None"
      by (simp_all add: run_segment_no_paths)
    then show ?thesis by - (rule exI [of _ "[]"], rule exI [of _ 0], auto)
  next
    case (Some sid)
    note m = main_located [OF Inr [unfolded Some]]
    let ?tr2 = "[Print start_msg, Call Simctl_list_devices None, Print (found_msg sid)]"
    let ?tr4 = "[Print start_msg, Call Simctl_list_devices None, Print (found_msg sid),
                 Call (Makedirs temp_dir) None, Print created_msg]"
    show ?thesis
    proof (cases "respond w ?tr2 (Makedirs temp_dir)")
      case (Some e)
      with m have "run_segment sid (catalog_items IMAGES) (snd (main w)) 0"
        and "fst (main w) \<noteq> None"
        by (simp_all add: run_segment_no_paths)
      then show ?thesis by - (rule exI [of _ sid], rule exI [of _ 0], auto)
    next
      case None
      obtain r5 tr5 n where loop: "for_cities w sid IMAGES (?tr4, 0) = (r5, tr5, n)"
        by (metis prod_cases3)
      from for_cities_segment [OF loop distinct_IMAGES_keys] obtain evs k where
        seg: "tr5 = ?tr4 @ evs" "n = 0 + k" "run_segment sid (catalog_items IMAGES) evs k"
        by blast
      from seg(3) have seg4: "run_segment sid (catalog_items IMAGES) (?tr4 @ evs) k"
        by (intro run_segment_prefix) simp_all
      show ?thesis
      proof (cases r5)
        case (Some e)
        with m None loop seg seg4
        have "run_segment sid (catalog_items IMAGES) (snd (main w)) k" and "fst (main w) \<noteq> None"
          by simp_all
        then show ?thesis by - (rule exI [of _ sid], rule exI [of _ k], auto)
      next
        case r5: None
        let ?post = "[Call (Rmdir temp_dir) (respond w tr5 (Rmdir temp_dir)),
                      Print (done_msg k), Print open_photos_msg]"
        from m None loop seg r5 have tr: "snd (main w) = (?tr4 @ evs) @ ?post" by simp
        have "run_segment sid (catalog_items IMAGES) ((?tr4 @ evs) @ ?post) k"
          using seg4 by (rule run_segment_suffix) simp
        with tr have "run_segment sid (catalog_items IMAGES) (snd (main w)) k
            \<and> (fst (main w) = None \<longrightarrow>
                 (\<exists>tr0 r. snd (main w)
                     = tr0 @ [Call (Rmdir temp_dir) r, Print (done_msg k), Print open_photos_msg]))"
          by auto
        then show ?thesis by - (rule exI [of _ sid], rule exI [of _ k])
      qed
    qed
  qed
qed

section \<open>Runs in which no unguarded call raises\<close>

lemma no_unguarded_error_Remove:
  "no_unguarded_error w \<Longrightarrow> respond w tr (Remove f) = None"
  unfolding no_unguarded_error_def
  by (metis not_Some_eq unguarded_ok.simps(3))

lemma no_unguarded_error_Makedirs:
  "no_unguarded_error w \<Longrightarrow> respond w tr (Makedirs d) = None"
  unfolding no_unguarded_error_def
  by (metis not_Some_eq unguarded_ok.simps(2))

lemma no_unguarded_error_addmedia:
  "no_unguarded_error w \<Longrightarrow> respond w tr (Simctl_addmedia sid f) = Some e
     \<Longrightarrow> is_CalledProcessError e"
  unfolding no_unguarded_error_def
  by (metis unguarded_ok.simps(4))

lemma process_item_returns:
  assumes "no_unguarded_error w"
  shows "fst (process_item w sid city (i, url) (tr, n)) = None"
proof -
  let ?f = "filename_of city i"
  let ?t1 = "tr @ [Print (downloading_msg city i)]"
  let ?t3 = "tr @ [Print (downloading_msg city i), Call (Urlretrieve url ?f) None, Print downloaded_msg]"
  note rm = no_unguarded_error_Remove [OF assms]
  show ?thesis
  proof (cases "respond w ?t1 (Urlretrieve url ?f)")
    case (Some e)
    from process_item_download_failed [OF Some] show ?thesis by simp
  next
    case dl: None
    show ?thesis
    proof (cases "respond w ?t3 (Simctl_addmedia sid ?f)")
      case None
      from process_item_imported [OF dl None rm] show ?thesis by simp
    next
      case (Some e)
      with assms have "is_CalledProcessError e" by (rule no_unguarded_error_addmedia)
      then obtain m where "e = CalledProcessError m" by (cases e) simp_all
      with process_item_import_failed [OF dl Some [unfolded this] rm] show ?thesis by simp
    qed
  qed
qed

lemma for_urls_returns:
  assumes "no_unguarded_error w"
  shows "fst (for_urls w sid city ius s) = None"
proof (induction ius arbitrary: s)
  case Nil
  show ?case by simp
next
  case (Cons iu rest)
  obtain i url where iu: "iu = (i, url)" by (cases iu)
  obtain tr n where s: "s = (tr, n)" by (cases s)
  obtain s1 where "process_item w sid city (i, url) (tr, n) = (None, s1)"
    using process_item_returns [OF assms, of sid city i url tr n] by (metis prod.collapse)
  with Cons.IH [of s1] show ?case by (simp add: iu s)
qed

lemma for_cities_returns:
  assumes "no_unguarded_error w"
  shows "fst (for_cities w sid imgs s) = None"
proof (induction imgs arbitrary: s)
  case Nil
  show ?case by simp
next
  case (Cons cu rest)
  obtain city urls where cu: "cu = (city, urls)" by (cases cu)
  obtain tr n where s: "s = (tr, n)" by (cases s)
  obtain tr2 n1 where
    "for_urls w sid city (enumerate 1 urls) (print (processing_msg city) tr, n) = (None, tr2, n1)"
    using for_urls_returns [OF assms, of sid city "enumerate 1 urls" "(print (processing_msg city) tr, n)"]
    by (metis prod.collapse)
  with Cons.IH [of "(print [] tr2, n1)"] show ?case by (simp add: cu s)
qed

lemma main_returns:
  assumes "no_unguarded_error w" "fst (get_simulator_id w [Print start_msg]) = Inr (Some sid)"
  shows "\<exists>tr5 n. main w = (None, tr5 @ [Call (Rmdir temp_dir) (respond w tr5 (Rmdir temp_dir)),
                                        Print (done_msg n), Print open_photos_msg])"
proof -
  let ?tr4 = "[Print start_msg, Call Simctl_list_devices None, Print (found_msg sid),
               Call (Makedirs temp_dir) None, Print created_msg]"
  obtain tr5 n where "for_cities w sid IMAGES (?tr4, 0) = (None, tr5, n)"
    using for_cities_returns [OF assms(1), of sid IMAGES "(?tr4, 0)"] by (metis prod.collapse)
  with main_located [OF assms(2)] no_unguarded_error_Makedirs [OF assms(1)]
  have "main w = (None, tr5 @ [Call (Rmdir temp_dir) (respond w tr5 (Rmdir temp_dir)),
                               Print (done_msg n), Print open_photos_msg])" by simp
  then show ?thesis by blast
qed

lemma no_unguarded_error_world_all_ok: "no_unguarded_error world_all_ok"
  by (simp add: no_unguarded_error_def world_all_ok_def)

lemma no_unguarded_error_world_flaky: "no_unguarded_error world_flaky"
  unfolding no_unguarded_error_def
proof (intro allI)
  fix tr c
  show "unguarded_ok c (respond world_flaky tr c)"
    by (cases c) (simp_all add: world_flaky_def)
qed

lemma located_world_all_ok:
  "fst (get_simulator_id world_all_ok [Print start_msg]) = Inr (Some ''ABCD-1234'')"
  by code_simp

lemma located_world_flaky:
  "fst (get_simulator_id world_flaky [Print start_msg]) = Inr (Some ''ABCD-1234'')"
  by code_simp

section \<open>The fatal path\<close>

text \<open>
  C4. When \<^verbatim>\<open>get_simulator_id\<close> returns \<^verbatim>\<open>None\<close>, \<^verbatim>\<open>main\<close> prints the two error lines,
  the second of which tells the operator to start the simulator, and leaves through
  \<^verbatim>\<open>sys.exit(1)\<close>, so the exit status is 1. The whole trace is the start line, the
  query and the two error lines: no download, no import, and no \<^verbatim>\<open>os.makedirs\<close>, so no
  file and no directory is created.
\<close>

theorem no_booted_device_exits_1:
  assumes "fst (get_simulator_id w [Print start_msg]) = Inr None"
  shows "snd (main w)
           = [Print start_msg,
              Call Simctl_list_devices (respond w [Print start_msg] Simctl_list_devices),
              Print no_simulator_msg,
              Print ''Please start the iOS Simulator first, then run this script again.'']
         \<and> fst (main w) = Some (SystemExit 1)
         \<and> exit_status (fst (main w)) = 1
         \<and> filter is_download (snd (main w)) = []
         \<and> filter is_import (snd (main w)) = []
         \<and> filter is_makedirs (snd (main w)) = []"
  using main_no_simulator [OF assms] by (simp add: please_start_msg_def)

theorem no_booted_device_exits_1_witness:
  "fst (get_simulator_id world_lowercase_marker [Print start_msg]) = Inr None
   \<and> fst (main world_lowercase_marker) = Some (SystemExit 1)
   \<and> exit_status (fst (main world_lowercase_marker)) = 1
   \<and> filter is_download (snd (main world_lowercase_marker)) = []
   \<and> filter is_import (snd (main world_lowercase_marker)) = []
   \<and> filter is_makedirs (snd (main world_lowercase_marker)) = []
   \<and> fst (get_simulator_id world_list_fails [Print start_msg]) = Inr None
   \<and> exit_status (fst (main world_list_fails)) = 1"
proof -
  have a: "fst (get_simulator_id world_lowercase_marker [Print start_msg]) = Inr None"
    by code_simp
  have b: "fst (get_simulator_id world_list_fails [Print start_msg]) = Inr None"
    by code_simp
  from no_booted_device_exits_1 [OF a] no_booted_device_exits_1 [OF b] a b
  show ?thesis by simp
qed


section \<open>The calls on one item's file\<close>

lemma item_calls_member: "ev \<in> set (item_calls tr f) \<longleftrightarrow> ev \<in> set tr \<and> event_path ev = Some f"
  by (auto simp: item_calls_def)

lemma item_protocol_failed_download:
  assumes "item_protocol sid url f evs" "Call (Urlretrieve url f) (Some e) \<in> set evs"
  shows "evs = [Call (Urlretrieve url f) (Some e)]"
  using assms by (induction sid url f evs rule: item_protocol.induct) auto



lemma main_item_protocol:
  assumes "(city, i, url) \<in> set (catalog_items IMAGES)"
  shows "\<exists>sid. item_protocol sid url (filename_of city i)
                 (item_calls (snd (main w)) (filename_of city i))"
proof -
  from main_trace [of w] obtain sid k where
    "run_segment sid (catalog_items IMAGES) (snd (main w)) k" by blast
  with assms have "item_protocol sid (snd (snd (city, i, url))) (item_path (city, i, url))
      (item_calls (snd (main w)) (item_path (city, i, url)))"
    unfolding run_segment_def by blast
  then show ?thesis by (auto simp: item_path_def)
qed

lemma download_False_skips:
  assumes dl: "download_image w url (filename_of city i) (print (downloading_msg city i) tr)
                 = (False, tr2)"
  shows "process_item w sid city (i, url) (tr, n) = (None, tr2, n)
        \<and> for_urls w sid city ((i, url) # rest) (tr, n) = for_urls w sid city rest (tr2, n)
        \<and> (\<exists>e. tr2 = tr @ [Print (downloading_msg city i),
                            Call (Urlretrieve url (filename_of city i)) (Some e),
                            Print (download_failed_msg e)])"
proof -
  let ?f = "filename_of city i"
  let ?t1 = "tr @ [Print (downloading_msg city i)]"
  from dl obtain e where e: "respond w ?t1 (Urlretrieve url ?f) = Some e"
    by (cases "respond w ?t1 (Urlretrieve url ?f)") (simp_all add: download_image_simps print_def)
  with dl have tr2: "tr2 = tr @ [Print (downloading_msg city i),
      Call (Urlretrieve url ?f) (Some e), Print (download_failed_msg e)]"
    by (simp add: download_image_simps print_def)
  from process_item_download_failed [OF e] tr2
  have step: "process_item w sid city (i, url) (tr, n) = (None, tr2, n)" by simp
  then have loop: "for_urls w sid city ((i, url) # rest) (tr, n) = for_urls w sid city rest (tr2, n)"
    by simp
  from tr2 have "\<exists>e. tr2 = tr @ [Print (downloading_msg city i),
      Call (Urlretrieve url ?f) (Some e), Print (download_failed_msg e)]" by (rule exI)
  with step loop show ?thesis by (intro conjI)
qed


lemma failed_download_in_run:
  assumes item: "(city, i, url) \<in> set (catalog_items IMAGES)"
    and failed: "Call (Urlretrieve url (filename_of city i)) (Some e) \<in> set (snd (main w))"
  shows "item_calls (snd (main w)) (filename_of city i)
           = [Call (Urlretrieve url (filename_of city i)) (Some e)]
        \<and> (\<forall>s r. Call (Simctl_addmedia s (filename_of city i)) r \<notin> set (snd (main w)))
        \<and> (\<forall>r. Call (Remove (filename_of city i)) r \<notin> set (snd (main w)))
        \<and> \<not> item_succeeded (snd (main w)) (city, i, url)"
proof -
  let ?f = "filename_of city i"
  let ?tr = "snd (main w)"
  from failed have failed': "Call (Urlretrieve url ?f) (Some e) \<in> set (item_calls ?tr ?f)"
    by (simp add: item_calls_member)
  from main_item_protocol [OF item] obtain sid' where
    "item_protocol sid' url ?f (item_calls ?tr ?f)" by blast
  from item_protocol_failed_download [OF this failed']
  have calls: "item_calls ?tr ?f = [Call (Urlretrieve url ?f) (Some e)]" .
  have no_import: "\<forall>s r. Call (Simctl_addmedia s ?f) r \<notin> set ?tr"
  proof (intro allI notI)
    fix s r
    assume "Call (Simctl_addmedia s ?f) r \<in> set ?tr"
    then have "Call (Simctl_addmedia s ?f) r \<in> set (item_calls ?tr ?f)"
      by (simp add: item_calls_member)
    with calls show False by simp
  qed
  have no_remove: "\<forall>r. Call (Remove ?f) r \<notin> set ?tr"
  proof (intro allI notI)
    fix r
    assume "Call (Remove ?f) r \<in> set ?tr"
    then have "Call (Remove ?f) r \<in> set (item_calls ?tr ?f)"
      by (simp add: item_calls_member)
    with calls show False by simp
  qed
  have not_counted: "\<not> item_succeeded ?tr (city, i, url)"
  proof
    assume "item_succeeded ?tr (city, i, url)"
    then have "Call (Urlretrieve url ?f) None \<in> set ?tr" by (simp add: item_succeeded_def)
    then have "Call (Urlretrieve url ?f) None \<in> set (item_calls ?tr ?f)"
      by (simp add: item_calls_member)
    with calls show False by simp
  qed
  from calls no_import no_remove not_counted show ?thesis by (intro conjI)
qed




section \<open>A run with per-item failures, evaluated\<close>

text \<open>
  In \<open>world_flaky\<close> the two \<^verbatim>\<open>berlin\<close> entries with the failing URL are not downloaded and
  the import of \<^verbatim>\<open>paris_3.jpg\<close> fails, so the run reports 27 of 30.
\<close>

lemma done_msg_inj: "done_msg n = done_msg m \<Longrightarrow> n = m"
  by (simp add: done_msg_def str_nat_inj)

lemma world_flaky_run:
  "(let tr = snd (main world_flaky) in
      Call (Urlretrieve ''https://images.unsplash.com/photo-1560969184-10fe8719e047?w=800''
             (filename_of ''berlin'' 1)) (Some (URLError ''HTTP Error 404: Not Found'')) \<in> set tr
      \<and> Call (Simctl_addmedia ''ABCD-1234'' (filename_of ''paris'' 3))
             (Some (CalledProcessError ''Command returned non-zero exit status 1.'')) \<in> set tr
      \<and> last (butlast tr) = Print (done_msg 27))"
  by code_simp

section \<open>The counter and the per-item failures\<close>

lemma str_nat_decimal: "set (str_nat n) \<subseteq> set ''0123456789''"
proof
  fix c assume "c \<in> set (str_nat n)"
  then have "48 \<le> (of_char c :: nat) \<and> (of_char c :: nat) \<le> 57" by (rule str_nat_digits)
  then show "c \<in> set ''0123456789''" by (intro digit_cases) simp_all
qed

lemma done_msg_text:
  "done_msg n = CHR 0x0A # [CHR 0xE2, CHR 0x9C, CHR 0xA8] @ '' Done! Imported '' @ str_nat n
                  @ ''/30 images to iOS Simulator.''"
  by (simp add: done_msg_def sparkles_def)

text \<open>
  C1. When \<^verbatim>\<open>main\<close> returns (the run reached the summary), the trace ends with the final
  \<^verbatim>\<open>os.rmdir\<close>, the summary line for a number \<open>n\<close> and the closing line. The summary
  line is the text of the source's f-string: a newline, the sparkles sign,
  \<^verbatim>\<open> Done! Imported \<close>, the decimal digits of \<open>n\<close> and \<^verbatim>\<open>/30 images to iOS Simulator.\<close>;
  the digits determine \<open>n\<close>, so the line reports \<open>n\<close> and no other number. And \<open>n\<close> is the
  number of catalog items for which the download returned and the import returned
  without an exception; it is at most 30, the number of catalog items (three categories
  of ten).
\<close>

theorem reported_total_counts_successes:
  assumes "fst (main w) = None"
  shows "\<exists>tr0 r n.
           snd (main w) = tr0 @ [Call (Rmdir temp_dir) r, Print (done_msg n), Print open_photos_msg]
           \<and> done_msg n = CHR 0x0A # [CHR 0xE2, CHR 0x9C, CHR 0xA8] @ '' Done! Imported ''
                              @ str_nat n @ ''/30 images to iOS Simulator.''
           \<and> str_nat n \<noteq> [] \<and> set (str_nat n) \<subseteq> set ''0123456789''
           \<and> (\<forall>m. str_nat m = str_nat n \<longrightarrow> m = n)
           \<and> (\<forall>m. done_msg m = done_msg n \<longrightarrow> m = n)
           \<and> n = length (filter (item_succeeded (snd (main w))) (catalog_items IMAGES))
           \<and> n \<le> 30
           \<and> length (catalog_items IMAGES) = 30
           \<and> map (length \<circ> snd) IMAGES = [10, 10, 10]"
proof -
  have sizes: "map (length \<circ> snd) IMAGES = [10, 10, 10]"
    by (simp add: IMAGES_def)
  from main_trace [of w] assms obtain sid k tr0 r where
    seg: "run_segment sid (catalog_items IMAGES) (snd (main w)) k"
    and tr: "snd (main w) = tr0 @ [Call (Rmdir temp_dir) r, Print (done_msg k), Print open_photos_msg]"
    by blast
  from seg have k: "k = length (filter (item_succeeded (snd (main w))) (catalog_items IMAGES))"
    by (simp add: run_segment_def)
  have "length (filter (item_succeeded (snd (main w))) (catalog_items IMAGES))
      \<le> length (catalog_items IMAGES)" by (rule length_filter_le)
  with k have le: "k \<le> 30" by (simp add: length_catalog_items_IMAGES)
  have inj1: "\<forall>m. str_nat m = str_nat k \<longrightarrow> m = k" by (auto dest: str_nat_inj)
  have inj2: "\<forall>m. done_msg m = done_msg k \<longrightarrow> m = k" by (auto dest: done_msg_inj)
  from tr done_msg_text [of k] str_nat_nonempty [of k] str_nat_decimal [of k] inj1 inj2 k le
    length_catalog_items_IMAGES sizes
  have "snd (main w) = tr0 @ [Call (Rmdir temp_dir) r, Print (done_msg k), Print open_photos_msg]
      \<and> done_msg k = CHR 0x0A # [CHR 0xE2, CHR 0x9C, CHR 0xA8] @ '' Done! Imported ''
                              @ str_nat k @ ''/30 images to iOS Simulator.''
      \<and> str_nat k \<noteq> [] \<and> set (str_nat k) \<subseteq> set ''0123456789''
      \<and> (\<forall>m. str_nat m = str_nat k \<longrightarrow> m = k)
      \<and> (\<forall>m. done_msg m = done_msg k \<longrightarrow> m = k)
      \<and> k = length (filter (item_succeeded (snd (main w))) (catalog_items IMAGES))
      \<and> k \<le> 30
      \<and> length (catalog_items IMAGES) = 30
      \<and> map (length \<circ> snd) IMAGES = [10, 10, 10]"
    by (intro conjI)
  then show ?thesis by - (rule exI [of _ tr0], rule exI [of _ r], rule exI [of _ k])
qed

theorem reported_total_counts_successes_witness:
  "fst (main world_flaky) = None
   \<and> (\<exists>tr0 r. snd (main world_flaky)
         = tr0 @ [Call (Rmdir temp_dir) r,
                  Print (CHR 0x0A # [CHR 0xE2, CHR 0x9C, CHR 0xA8]
                           @ '' Done! Imported 27/30 images to iOS Simulator.''),
                  Print open_photos_msg])
   \<and> length (filter (item_succeeded (snd (main world_flaky))) (catalog_items IMAGES)) = 27"
proof -
  from main_returns [OF no_unguarded_error_world_flaky located_world_flaky]
  have a: "fst (main world_flaky) = None" by auto
  from reported_total_counts_successes [OF a] obtain tr0 r n where
    tr: "snd (main world_flaky)
           = tr0 @ [Call (Rmdir temp_dir) r, Print (done_msg n), Print open_photos_msg]"
    and msg: "done_msg n = CHR 0x0A # [CHR 0xE2, CHR 0x9C, CHR 0xA8] @ '' Done! Imported ''
                              @ str_nat n @ ''/30 images to iOS Simulator.''"
    and inj: "\<forall>m. done_msg m = done_msg n \<longrightarrow> m = n"
    and n: "n = length (filter (item_succeeded (snd (main world_flaky))) (catalog_items IMAGES))"
    by blast
  from world_flaky_run have "last (butlast (snd (main world_flaky))) = Print (done_msg 27)"
    by (simp add: Let_def)
  with tr have "done_msg 27 = done_msg n" by (simp add: butlast_append)
  with inj have n27: "n = 27" by auto
  have "str_nat 27 = ''27''" by code_simp
  with msg n27 have "done_msg n = CHR 0x0A # [CHR 0xE2, CHR 0x9C, CHR 0xA8]
      @ '' Done! Imported 27/30 images to iOS Simulator.''" by simp
  with tr have "\<exists>tr0 r. snd (main world_flaky)
         = tr0 @ [Call (Rmdir temp_dir) r,
                  Print (CHR 0x0A # [CHR 0xE2, CHR 0x9C, CHR 0xA8]
                           @ '' Done! Imported 27/30 images to iOS Simulator.''),
                  Print open_photos_msg]" by auto
  with a n n27 show ?thesis by (intro conjI) simp_all
qed

text \<open>
  C2. If \<^verbatim>\<open>download_image\<close> returns \<^verbatim>\<open>False\<close> for an item, the loop body ends for this
  item with the counter unchanged, having added to the trace only the progress line,
  the failed \<^verbatim>\<open>urlretrieve\<close> call and the diagnostic, and the loop goes on with the next
  item. In the trace of a whole run: if the download of a catalog item failed, the failed
  download is the only call on the item's file, so there is no \<^verbatim>\<open>simctl addmedia\<close> and no
  \<^verbatim>\<open>os.remove\<close> for it, and the item is not among the successes that the final total
  counts.
\<close>

theorem failed_download_skips_import_and_cleanup:
  "(\<forall>tr2. download_image w url (filename_of city i) (print (downloading_msg city i) tr)
             = (False, tr2) \<longrightarrow>
        process_item w sid city (i, url) (tr, n) = (None, tr2, n)
        \<and> for_urls w sid city ((i, url) # rest) (tr, n) = for_urls w sid city rest (tr2, n)
        \<and> (\<exists>e. tr2 = tr @ [Print (downloading_msg city i),
                            Call (Urlretrieve url (filename_of city i)) (Some e),
                            Print (download_failed_msg e)]))
   \<and> ((city, i, url) \<in> set (catalog_items IMAGES)
        \<and> Call (Urlretrieve url (filename_of city i)) (Some e) \<in> set (snd (main w)) \<longrightarrow>
        item_calls (snd (main w)) (filename_of city i)
          = [Call (Urlretrieve url (filename_of city i)) (Some e)]
        \<and> (\<forall>s r. Call (Simctl_addmedia s (filename_of city i)) r \<notin> set (snd (main w)))
        \<and> (\<forall>r. Call (Remove (filename_of city i)) r \<notin> set (snd (main w)))
        \<and> \<not> item_succeeded (snd (main w)) (city, i, url))"
  (is "?in_loop \<and> (?reached \<longrightarrow> ?in_run)")
proof (rule conjI)
  show ?in_loop by (intro allI impI) (rule download_False_skips)
  show "?reached \<longrightarrow> ?in_run"
  proof (rule impI)
    assume r: ?reached
    from failed_download_in_run [OF conjunct1 [OF r] conjunct2 [OF r]] show ?in_run .
  qed
qed

theorem failed_download_skips_import_and_cleanup_witness:
  "process_item world_flaky ''ABCD-1234'' ''berlin''
       (1, ''https://images.unsplash.com/photo-1560969184-10fe8719e047?w=800'') ([], 0)
     = (None,
        [Print (downloading_msg ''berlin'' 1),
         Call (Urlretrieve ''https://images.unsplash.com/photo-1560969184-10fe8719e047?w=800''
                 (filename_of ''berlin'' 1)) (Some (URLError ''HTTP Error 404: Not Found'')),
         Print (download_failed_msg (URLError ''HTTP Error 404: Not Found''))],
        0)
   \<and> (''berlin'', 1, ''https://images.unsplash.com/photo-1560969184-10fe8719e047?w=800'')
        \<in> set (catalog_items IMAGES)
   \<and> Call (Urlretrieve ''https://images.unsplash.com/photo-1560969184-10fe8719e047?w=800''
              (filename_of ''berlin'' 1)) (Some (URLError ''HTTP Error 404: Not Found''))
        \<in> set (snd (main world_flaky))
   \<and> item_calls (snd (main world_flaky)) (filename_of ''berlin'' 1)
        = [Call (Urlretrieve ''https://images.unsplash.com/photo-1560969184-10fe8719e047?w=800''
                   (filename_of ''berlin'' 1)) (Some (URLError ''HTTP Error 404: Not Found''))]
   \<and> \<not> item_succeeded (snd (main world_flaky))
          (''berlin'', 1, ''https://images.unsplash.com/photo-1560969184-10fe8719e047?w=800'')"
proof -
  let ?u = "''https://images.unsplash.com/photo-1560969184-10fe8719e047?w=800''"
  let ?e = "URLError ''HTTP Error 404: Not Found''"
  let ?tr2 = "[Print (downloading_msg ''berlin'' 1),
               Call (Urlretrieve ?u (filename_of ''berlin'' 1)) (Some ?e),
               Print (download_failed_msg ?e)]"
  note t = failed_download_skips_import_and_cleanup
    [where w = world_flaky and url = ?u and city = "''berlin''" and i = 1 and tr = "[]"
       and sid = "''ABCD-1234''" and n = 0 and rest = "[]" and e = ?e]
  have dl: "download_image world_flaky ?u (filename_of ''berlin'' 1)
      (print (downloading_msg ''berlin'' 1) []) = (False, ?tr2)"
    by (simp add: download_image_simps world_flaky_def print_def)
  have item: "(''berlin'', 1, ?u) \<in> set (catalog_items IMAGES)" by code_simp
  from world_flaky_run
  have failed: "Call (Urlretrieve ?u (filename_of ''berlin'' 1)) (Some ?e)
      \<in> set (snd (main world_flaky))" by (simp add: Let_def)
  from t dl have 1: "process_item world_flaky ''ABCD-1234'' ''berlin'' (1, ?u) ([], 0)
      = (None, ?tr2, 0)" by blast
  from t item failed
  have 2: "item_calls (snd (main world_flaky)) (filename_of ''berlin'' 1)
        = [Call (Urlretrieve ?u (filename_of ''berlin'' 1)) (Some ?e)]
      \<and> \<not> item_succeeded (snd (main world_flaky)) (''berlin'', 1, ?u)" by blast
  from 1 2 item failed show ?thesis by (intro conjI) simp_all
qed





section \<open>Which errors are caught\<close>

lemma locator_returns:
  assumes "case respond w tr Simctl_list_devices of None \<Rightarrow> True
           | Some e \<Rightarrow> is_CalledProcessError e"
  shows "\<exists>found. fst (get_simulator_id w tr) = Inr found"
proof (cases "respond w tr Simctl_list_devices")
  case None
  then show ?thesis by (simp add: fst_get_simulator_id)
next
  case (Some e)
  with assms have "is_CalledProcessError e" by simp
  then obtain m where "e = CalledProcessError m" by (cases e) simp_all
  with Some show ?thesis by (simp add: fst_get_simulator_id)
qed

lemma no_unguarded_error_world_list_fails: "no_unguarded_error world_list_fails"
  unfolding no_unguarded_error_def
proof (intro allI)
  fix tr c
  show "unguarded_ok c (respond world_list_fails tr c)"
    by (cases c) (simp_all add: world_list_fails_def)
qed

lemma main_outcomes:
  "fst (main w) = None
   \<or> (fst (main w) = Some (SystemExit 1) \<and> fst (get_simulator_id w [Print start_msg]) = Inr None)
   \<or> (\<exists>e. fst (main w) = Some (Uncaught e))"
proof (cases "fst (get_simulator_id w [Print start_msg])")
  case (Inl e)
  from main_locator_raised [OF Inl] show ?thesis by simp
next
  case (Inr found)
  show ?thesis
  proof (cases found)
    case None
    from main_no_simulator [OF Inr [unfolded None]] Inr None show ?thesis by simp
  next
    case (Some sid)
    from main_located [OF Inr [unfolded Some]] show ?thesis
      by (auto split: option.splits prod.splits)
  qed
qed

lemma main_SystemExit:
  assumes "fst (main w) = Some (SystemExit k)"
  shows "k = 1 \<and> fst (get_simulator_id w [Print start_msg]) = Inr None"
  using main_outcomes [of w] assms by auto

text \<open>
  Against C6 as stated: in \<open>world_remove_fails\<close> a simulator is found, the first download
  and the first import succeed, and the per-item \<^verbatim>\<open>os.remove\<close> raises. Nothing catches
  the exception: it leaves the loop body and \<^verbatim>\<open>main\<close>, and the process ends with status 1
  right after the failed call. In \<open>world_import_cannot_start\<close> the import tool cannot be
  started; the \<^verbatim>\<open>OSError\<close> is not a \<^verbatim>\<open>CalledProcessError\<close>, so it leaves
  \<^verbatim>\<open>import_to_simulator\<close> and \<^verbatim>\<open>main\<close> after the first import attempt.
\<close>

theorem remove_error_leaves_main:
  "fst (get_simulator_id world_remove_fails [Print start_msg]) = Inr (Some ''ABCD-1234'')
   \<and> fst (process_item world_remove_fails ''ABCD-1234'' ''copenhagen''
            (1, ''https://images.unsplash.com/photo-1513622470522-26c3c8a854bc?w=800'')
            ([], 0))
       = Some (OSError ''[Errno 13] Permission denied'')
   \<and> fst (main world_remove_fails) = Some (Uncaught (OSError ''[Errno 13] Permission denied''))
   \<and> exit_status (fst (main world_remove_fails)) = 1
   \<and> last (snd (main world_remove_fails))
       = Call (Remove (filename_of ''copenhagen'' 1)) (Some (OSError ''[Errno 13] Permission denied''))
   \<and> fst (get_simulator_id world_import_cannot_start [Print start_msg])
       = Inr (Some ''ABCD-1234'')
   \<and> fst (import_to_simulator world_import_cannot_start ''ABCD-1234''
            (filename_of ''copenhagen'' 1) [])
       = Inl (OSError ''[Errno 12] Cannot allocate memory'')
   \<and> fst (main world_import_cannot_start)
       = Some (Uncaught (OSError ''[Errno 12] Cannot allocate memory''))
   \<and> filter is_import (snd (main world_import_cannot_start))
       = [Call (Simctl_addmedia ''ABCD-1234'' (filename_of ''copenhagen'' 1))
            (Some (OSError ''[Errno 12] Cannot allocate memory''))]"
  by code_simp

text \<open>
  C6, amended. An exception of \<^verbatim>\<open>urlretrieve\<close> is caught in \<^verbatim>\<open>download_image\<close>, and a
  \<^verbatim>\<open>CalledProcessError\<close> of \<^verbatim>\<open>simctl addmedia\<close> is caught in \<^verbatim>\<open>import_to_simulator\<close>;
  each becomes a printed diagnostic and the result \<^verbatim>\<open>False\<close>. In a world in which no
  unguarded call raises (\<^verbatim>\<open>os.makedirs\<close> and every \<^verbatim>\<open>os.remove\<close> return, \<^verbatim>\<open>simctl addmedia\<close>
  raises nothing but \<^verbatim>\<open>CalledProcessError\<close>), no exception leaves the loop body; if in
  addition the list-devices query raises nothing but \<^verbatim>\<open>CalledProcessError\<close>, \<^verbatim>\<open>main\<close>
  either returns or ends through the no-booted-device exit. Downloads, the exit status
  of the import tool and of the query, and the final \<^verbatim>\<open>os.rmdir\<close> may fail freely.
\<close>

theorem download_and_import_exit_errors_are_caught:
  "(respond w tr (Urlretrieve url f) = Some e \<longrightarrow>
      download_image w url f tr
        = (False, tr @ [Call (Urlretrieve url f) (Some e), Print (download_failed_msg e)]))
   \<and> (respond w tr (Simctl_addmedia sid f) = Some (CalledProcessError m) \<longrightarrow>
        import_to_simulator w sid f tr
          = (Inr False, tr @ [Call (Simctl_addmedia sid f) (Some (CalledProcessError m)),
                             Print (import_failed_msg (CalledProcessError m))]))
   \<and> (no_unguarded_error w \<longrightarrow> fst (process_item w sid city (i, url) (tr, n)) = None)
   \<and> (no_unguarded_error w
        \<and> (case respond w [Print start_msg] Simctl_list_devices of
              None \<Rightarrow> True | Some e \<Rightarrow> is_CalledProcessError e) \<longrightarrow>
        fst (main w) = None
        \<or> (fst (main w) = Some (SystemExit 1)
            \<and> fst (get_simulator_id w [Print start_msg]) = Inr None))"
proof (intro conjI impI)
  assume "respond w tr (Urlretrieve url f) = Some e"
  then show "download_image w url f tr
      = (False, tr @ [Call (Urlretrieve url f) (Some e), Print (download_failed_msg e)])"
    by (rule download_image_simps)
next
  assume "respond w tr (Simctl_addmedia sid f) = Some (CalledProcessError m)"
  then show "import_to_simulator w sid f tr
      = (Inr False, tr @ [Call (Simctl_addmedia sid f) (Some (CalledProcessError m)),
                         Print (import_failed_msg (CalledProcessError m))])"
    by (rule import_to_simulator_simps)
next
  assume "no_unguarded_error w"
  then show "fst (process_item w sid city (i, url) (tr, n)) = None"
    by (rule process_item_returns)
next
  assume a: "no_unguarded_error w
      \<and> (case respond w [Print start_msg] Simctl_list_devices of
            None \<Rightarrow> True | Some e \<Rightarrow> is_CalledProcessError e)"
  then have un: "no_unguarded_error w" by (rule conjunct1)
  from locator_returns [OF conjunct2 [OF a]] obtain found where
    found: "fst (get_simulator_id w [Print start_msg]) = Inr found" by blast
  show "fst (main w) = None
      \<or> (fst (main w) = Some (SystemExit 1)
          \<and> fst (get_simulator_id w [Print start_msg]) = Inr None)"
  proof (cases found)
    case None
    with found main_no_simulator [of w] show ?thesis by simp
  next
    case (Some sid')
    with found main_returns [OF un, of sid'] show ?thesis by auto
  qed
qed

theorem download_and_import_exit_errors_are_caught_witness:
  "no_unguarded_error world_flaky
   \<and> respond world_flaky [Print start_msg] Simctl_list_devices = None
   \<and> download_image world_flaky
         ''https://images.unsplash.com/photo-1560969184-10fe8719e047?w=800''
         (filename_of ''berlin'' 1) []
       = (False,
          [Call (Urlretrieve ''https://images.unsplash.com/photo-1560969184-10fe8719e047?w=800''
                   (filename_of ''berlin'' 1)) (Some (URLError ''HTTP Error 404: Not Found'')),
           Print (download_failed_msg (URLError ''HTTP Error 404: Not Found''))])
   \<and> import_to_simulator world_flaky ''ABCD-1234''
         ''/tmp/wanderlog_test_images/paris_3.jpg'' []
       = (Inr False,
          [Call (Simctl_addmedia ''ABCD-1234'' ''/tmp/wanderlog_test_images/paris_3.jpg'')
             (Some (CalledProcessError ''Command returned non-zero exit status 1.'')),
           Print (import_failed_msg
                    (CalledProcessError ''Command returned non-zero exit status 1.''))])
   \<and> fst (process_item world_flaky ''ABCD-1234'' ''berlin''
            (1, ''https://images.unsplash.com/photo-1560969184-10fe8719e047?w=800'') ([], 0))
       = None
   \<and> fst (main world_flaky) = None
   \<and> no_unguarded_error world_list_fails
   \<and> respond world_list_fails [Print start_msg] Simctl_list_devices
       = Some (CalledProcessError ''Command returned non-zero exit status 72.'')
   \<and> fst (main world_list_fails) = Some (SystemExit 1)"
proof -
  let ?u = "''https://images.unsplash.com/photo-1560969184-10fe8719e047?w=800''"
  let ?p = "''/tmp/wanderlog_test_images/paris_3.jpg''"
  note t = download_and_import_exit_errors_are_caught
    [where w = world_flaky and tr = "[]" and url = ?u and f = "filename_of ''berlin'' 1"
       and e = "URLError ''HTTP Error 404: Not Found''" and sid = "''ABCD-1234''"
       and city = "''berlin''" and i = 1 and n = 0]
  note t' = download_and_import_exit_errors_are_caught
    [where w = world_flaky and tr = "[]" and url = ?u and f = ?p
       and sid = "''ABCD-1234''" and m = "''Command returned non-zero exit status 1.''"]
  note t'' = download_and_import_exit_errors_are_caught [where w = world_list_fails]
  note un = no_unguarded_error_world_flaky
  note un' = no_unguarded_error_world_list_fails
  have a: "respond world_flaky [] (Urlretrieve ?u (filename_of ''berlin'' 1))
      = Some (URLError ''HTTP Error 404: Not Found'')"
    by (simp add: world_flaky_def)
  have b: "respond world_flaky [] (Simctl_addmedia ''ABCD-1234'' ?p)
      = Some (CalledProcessError ''Command returned non-zero exit status 1.'')"
    by (simp add: world_flaky_def)
  have c: "fst (get_simulator_id world_flaky [Print start_msg]) \<noteq> Inr None"
    by (simp add: located_world_flaky)
  have d: "respond world_flaky [Print start_msg] Simctl_list_devices = None"
    by (simp add: world_flaky_def)
  have e: "respond world_list_fails [Print start_msg] Simctl_list_devices
      = Some (CalledProcessError ''Command returned non-zero exit status 72.'')"
    by (simp add: world_list_fails_def)
  have f: "fst (main world_list_fails) \<noteq> None"
    using main_no_simulator [of world_list_fails] e by (simp add: fst_get_simulator_id)
  from t a have 1: "download_image world_flaky ?u (filename_of ''berlin'' 1) []
      = (False, [Call (Urlretrieve ?u (filename_of ''berlin'' 1))
                   (Some (URLError ''HTTP Error 404: Not Found'')),
                 Print (download_failed_msg (URLError ''HTTP Error 404: Not Found''))])"
    by simp
  from t' b have 2: "import_to_simulator world_flaky ''ABCD-1234'' ?p []
      = (Inr False,
         [Call (Simctl_addmedia ''ABCD-1234'' ?p)
            (Some (CalledProcessError ''Command returned non-zero exit status 1.'')),
          Print (import_failed_msg (CalledProcessError ''Command returned non-zero exit status 1.''))])"
    by simp
  from t un have 3: "fst (process_item world_flaky ''ABCD-1234'' ''berlin'' (1, ?u) ([], 0))
      = None" by blast
  from t un c d have 4: "fst (main world_flaky) = None" by simp
  from t'' un' e f have 5: "fst (main world_list_fails) = Some (SystemExit 1)" by simp
  from un d 1 2 3 4 un' e 5 show ?thesis by (intro conjI)
qed

section \<open>The summary and the exit status\<close>

text \<open>
  Against C8 as stated: in \<open>world_makedirs_fails\<close> a simulator is found and
  \<^verbatim>\<open>os.makedirs\<close> raises. The run has passed device location, and the process ends with
  status 1.
\<close>

theorem makedirs_error_exit_status_1:
  "fst (get_simulator_id world_makedirs_fails [Print start_msg]) = Inr (Some ''ABCD-1234'')
   \<and> fst (main world_makedirs_fails) = Some (Uncaught (OSError ''[Errno 17] File exists''))
   \<and> exit_status (fst (main world_makedirs_fails)) = 1
   \<and> snd (main world_makedirs_fails)
       = [Print start_msg, Call Simctl_list_devices None, Print (found_msg ''ABCD-1234''),
          Call (Makedirs temp_dir) (Some (OSError ''[Errno 17] File exists''))]"
  by code_simp

text \<open>
  C8, amended. In a run that finds a simulator and in which no unguarded call raises
  (\<^verbatim>\<open>os.makedirs\<close> and every \<^verbatim>\<open>os.remove\<close> return, \<^verbatim>\<open>simctl addmedia\<close> raises nothing but
  \<^verbatim>\<open>CalledProcessError\<close>), \<^verbatim>\<open>main\<close> ends with the call of \<^verbatim>\<open>os.rmdir\<close> on the temporary
  directory, whose result is ignored, then the summary line, then the closing line, and
  returns, so the exit status is 0; failed downloads and failed imports do not change
  this. \<^verbatim>\<open>sys.exit\<close> is reached with status 1 only, and only when the Device Locator
  returned \<^verbatim>\<open>None\<close>; any other non-zero exit status is 1 and comes from an exception that
  nothing caught.
\<close>

theorem summary_and_exit_status_0:
  "(no_unguarded_error w \<and> fst (get_simulator_id w [Print start_msg]) = Inr (Some sid) \<longrightarrow>
      (\<exists>tr5 n. main w
                  = (None,
                     tr5 @ [Call (Rmdir temp_dir) (respond w tr5 (Rmdir temp_dir)),
                            Print (done_msg n), Print open_photos_msg]))
      \<and> exit_status (fst (main w)) = 0)
   \<and> (fst (main w) = Some (SystemExit k) \<longrightarrow>
        k = 1 \<and> fst (get_simulator_id w [Print start_msg]) = Inr None)
   \<and> (exit_status (fst (main w)) \<noteq> 0 \<longrightarrow>
        exit_status (fst (main w)) = 1
        \<and> (fst (get_simulator_id w [Print start_msg]) = Inr None
            \<or> (\<exists>e. fst (main w) = Some (Uncaught e))))"
proof (intro conjI impI)
  assume a: "no_unguarded_error w \<and> fst (get_simulator_id w [Print start_msg]) = Inr (Some sid)"
  from main_returns [OF conjunct1 [OF a] conjunct2 [OF a]]
  show ret: "\<exists>tr5 n. main w
      = (None, tr5 @ [Call (Rmdir temp_dir) (respond w tr5 (Rmdir temp_dir)),
                      Print (done_msg n), Print open_photos_msg])" .
  then show "exit_status (fst (main w)) = 0" by auto
next
  assume "fst (main w) = Some (SystemExit k)"
  from main_SystemExit [OF this]
  show "k = 1" and "fst (get_simulator_id w [Print start_msg]) = Inr None"
    by blast+
next
  assume "exit_status (fst (main w)) \<noteq> 0"
  with main_outcomes [of w] show "exit_status (fst (main w)) = 1" by auto
next
  assume "exit_status (fst (main w)) \<noteq> 0"
  with main_outcomes [of w]
  show "fst (get_simulator_id w [Print start_msg]) = Inr None
      \<or> (\<exists>e. fst (main w) = Some (Uncaught e))" by auto
qed

theorem summary_and_exit_status_0_witness:
  "no_unguarded_error world_flaky
   \<and> fst (get_simulator_id world_flaky [Print start_msg]) = Inr (Some ''ABCD-1234'')
   \<and> (\<exists>tr5 n. main world_flaky
         = (None,
            tr5 @ [Call (Rmdir temp_dir) (Some (OSError ''[Errno 66] Directory not empty'')),
                   Print (done_msg n), Print open_photos_msg]))
   \<and> exit_status (fst (main world_flaky)) = 0
   \<and> Call (Urlretrieve ''https://images.unsplash.com/photo-1560969184-10fe8719e047?w=800''
              (filename_of ''berlin'' 1)) (Some (URLError ''HTTP Error 404: Not Found''))
        \<in> set (snd (main world_flaky))
   \<and> Call (Simctl_addmedia ''ABCD-1234'' (filename_of ''paris'' 3))
         (Some (CalledProcessError ''Command returned non-zero exit status 1.''))
        \<in> set (snd (main world_flaky))
   \<and> exit_status (fst (main world_lowercase_marker)) = 1"
proof -
  note t = summary_and_exit_status_0 [where w = world_flaky and sid = "''ABCD-1234''"]
  note un = no_unguarded_error_world_flaky
  note loc = located_world_flaky
  have rmdir: "respond world_flaky tr5 (Rmdir temp_dir)
      = Some (OSError ''[Errno 66] Directory not empty'')" for tr5
    by (simp add: world_flaky_def)
  from t un loc have 1: "\<exists>tr5 n. main world_flaky
         = (None, tr5 @ [Call (Rmdir temp_dir) (respond world_flaky tr5 (Rmdir temp_dir)),
                         Print (done_msg n), Print open_photos_msg])"
    and 2: "exit_status (fst (main world_flaky)) = 0" by blast+
  from 1 have ret: "\<exists>tr5 n. main world_flaky
         = (None, tr5 @ [Call (Rmdir temp_dir) (Some (OSError ''[Errno 66] Directory not empty'')),
                         Print (done_msg n), Print open_photos_msg])"
    by (simp only: rmdir)
  from world_flaky_run
  have 3: "Call (Urlretrieve ''https://images.unsplash.com/photo-1560969184-10fe8719e047?w=800''
              (filename_of ''berlin'' 1)) (Some (URLError ''HTTP Error 404: Not Found''))
        \<in> set (snd (main world_flaky))"
    and 4: "Call (Simctl_addmedia ''ABCD-1234'' (filename_of ''paris'' 3))
         (Some (CalledProcessError ''Command returned non-zero exit status 1.''))
        \<in> set (snd (main world_flaky))"
    by (simp_all add: Let_def)
  have "fst (get_simulator_id world_lowercase_marker [Print start_msg]) = Inr None"
    by code_simp
  from main_no_simulator [OF this] have 5: "exit_status (fst (main world_lowercase_marker)) = 1"
    by simp
  from un loc ret 2 3 4 5 show ?thesis by (intro conjI)
qed

end
